theory Spec2Isabelle
  imports Main
begin

section \<open>config\_loader.py: transitions, specification, transition keys\<close>

text \<open>
  Python strings are modelled as \<open>string\<close> (lists of characters); an \<open>Optional[str]\<close> is a
  \<open>string option\<close>. The two dataclasses share the field names \<open>initial_state\<close> and
  \<open>initial_memory\<close>; they are written with their record name where both are in scope.
\<close>

record Transition =
  initial_state :: string
  read_symbol :: string
  next_state :: string
  write_symbol :: string
  movement :: string
  initial_memory :: "string option"
  next_memory :: "string option"

record MachineSpecification =
  states :: "string list"
  initial_state :: string
  final_states :: "string list"
  input_alphabet :: "string list"
  tape_alphabet :: "string list"
  blank_symbol :: string
  transitions :: "Transition list"
  simulation_strings :: "string list"
  memory_alphabet :: "string list option"
  initial_memory :: "string option"

text \<open>
  \<^verbatim>\<open>f"{state}|{symbol}|{memory or '*'}"\<close>: \<open>memory or '*'\<close> is \<open>'*'\<close> when the memory is
  \<open>None\<close> and also when it is the empty string (both are falsy).
\<close>

definition transition_key :: "string \<Rightarrow> string \<Rightarrow> string option \<Rightarrow> string" where
  "transition_key state symbol memory =
     state @ ''|'' @ symbol @ ''|'' @
       (case memory of None \<Rightarrow> ''*'' | Some m \<Rightarrow> if m = [] then ''*'' else m)"

text \<open>The key under which \<open>transition_map\<close> files a transition.\<close>

definition key_of :: "Transition \<Rightarrow> string" where
  "key_of transition =
     transition_key (Transition.initial_state transition) (read_symbol transition)
       (Transition.initial_memory transition)"

text \<open>
  \<open>MachineSpecification.transition_map\<close>: the dictionary starts empty and every transition,
  in declaration order, is assigned to its key.
\<close>

definition transition_map :: "MachineSpecification \<Rightarrow> (string \<rightharpoonup> Transition)" where
  "transition_map spec =
     foldl (\<lambda>mapping transition. mapping(key_of transition \<mapsto> transition))
       Map.empty (transitions spec)"

section \<open>machine.py: instantaneous descriptions, results, the tape\<close>

record InstantaneousDescription =
  step :: int
  state :: string
  head_position :: int
  tape_view :: string
  memory :: "string option"

record MachineResult =
  accepted :: bool
  halted :: bool
  reason :: string
  steps :: int
  ids :: "InstantaneousDescription list"

record Tape =
  blank_symbol :: string
  cells :: "int \<rightharpoonup> string"
  min_index :: int
  max_index :: int

text \<open>
  \<open>Tape.__init__\<close>: the body of the loop over \<open>enumerate(initial_input)\<close> stores a
  character as a one-character string and moves \<open>max_index\<close> to the index just written.
\<close>

definition Tape_init_store :: "Tape \<Rightarrow> nat \<times> char \<Rightarrow> Tape" where
  "Tape_init_store t entry =
     (case entry of
        (index, symbol) \<Rightarrow>
          t\<lparr>cells := (cells t)(int index \<mapsto> [symbol]), max_index := int index\<rparr>)"

definition Tape_init :: "string \<Rightarrow> string \<Rightarrow> Tape" where
  "Tape_init blank initial_input =
     (let t0 = \<lparr>blank_symbol = blank, cells = Map.empty, min_index = 0, max_index = 0\<rparr>;
          t1 = foldl Tape_init_store t0 (enumerate 0 initial_input)
      in if initial_input = [] then t1\<lparr>cells := (cells t1)(0 \<mapsto> blank)\<rparr> else t1)"

text \<open>
  The methods of \<open>Tape\<close> act on the object: each is modelled as a function that returns its
  result together with the tape it leaves behind. \<open>read\<close> is \<open>self.cells.get(position,
  self.blank_symbol)\<close>.
\<close>

definition read :: "Tape \<Rightarrow> int \<Rightarrow> string \<times> Tape" where
  "read t position =
     ((case cells t position of None \<Rightarrow> Tape.blank_symbol t | Some symbol \<Rightarrow> symbol), t)"

definition write_tape :: "Tape \<Rightarrow> int \<Rightarrow> string \<Rightarrow> Tape" where
  "write_tape t position symbol =
     t\<lparr>cells := (cells t)(position \<mapsto> symbol),
       min_index := min (min_index t) position,
       max_index := max (max_index t) position\<rparr>"

text \<open>The body of the \<open>for index in range(start, end + 1)\<close> loop of \<open>view\<close>.\<close>

fun view_loop :: "Tape \<Rightarrow> int \<Rightarrow> int list \<Rightarrow> string list \<Rightarrow> string list \<times> Tape" where
  "view_loop t head [] acc = (acc, t)"
| "view_loop t head (index # rest) acc =
     (case read t index of
        (symbol, t') \<Rightarrow>
          view_loop t' head rest
            (acc @ [if index = head then ''['' @ symbol @ '']'' else symbol]))"

definition view :: "Tape \<Rightarrow> int \<Rightarrow> int \<Rightarrow> string \<times> Tape" where
  "view t head radius =
     (let start = min (min_index t) (head - radius);
          end = max (max_index t) (head + radius)
      in case view_loop t head [start..end] [] of
           (acc, t') \<Rightarrow> (concat acc, t'))"

section \<open>machine.py: the simulator\<close>

record TuringMachine =
  self_spec :: MachineSpecification
  self_transition_map :: "string \<rightharpoonup> Transition"

definition TuringMachine_init :: "MachineSpecification \<Rightarrow> TuringMachine" where
  "TuringMachine_init specification =
     \<lparr>self_spec = specification, self_transition_map = transition_map specification\<rparr>"

definition next_transition ::
  "TuringMachine \<Rightarrow> string \<Rightarrow> string \<Rightarrow> string option \<Rightarrow> Transition option" where
  "next_transition self st symbol mem =
     (case self_transition_map self (transition_key st symbol mem) of
        Some transition \<Rightarrow> Some transition
      | None \<Rightarrow> self_transition_map self (transition_key st symbol None))"

text \<open>The local variables of \<open>run\<close>.\<close>

record run_state =
  rs_tape :: Tape
  rs_state :: string
  rs_head_position :: int
  rs_memory :: "string option"
  rs_ids :: "InstantaneousDescription list"
  rs_steps :: int

text \<open>
  The three reason strings. Characters beyond ASCII are written by code point:
  \<open>0xF3\<close> is o acute, \<open>0xED\<close> i acute, \<open>0xE1\<close> a acute.
\<close>

definition reason_final :: string where
  "reason_final = ''Estado final alcanzado''"

definition reason_no_transition :: string where
  "reason_no_transition = ''No existe transici'' @ [CHR 0xF3] @ ''n definida''"

definition reason_step_limit :: string where
  "reason_step_limit =
     ''Se alcanz'' @ [CHR 0xF3] @ '' el l'' @ [CHR 0xED] @ ''mite m'' @ [CHR 0xE1] @
     ''ximo de pasos''"

text \<open>The closure \<open>capture\<close>; \<open>tape.view(head_position)\<close> uses the default radius 20.\<close>

definition capture :: "bool \<Rightarrow> run_state \<Rightarrow> run_state" where
  "capture capture_ids v =
     (if capture_ids then
        (case view (rs_tape v) (rs_head_position v) 20 of
           (rendered, t') \<Rightarrow>
             v\<lparr>rs_tape := t',
               rs_ids := rs_ids v @
                 [\<lparr>step = rs_steps v, state = rs_state v,
                   head_position = rs_head_position v, tape_view = rendered,
                   memory = rs_memory v\<rparr>]\<rparr>)
      else v)"

text \<open>Lines 138 to 146: write, move, change state and memory, count the step.\<close>

definition apply_transition :: "run_state \<Rightarrow> Transition \<Rightarrow> run_state" where
  "apply_transition v transition =
     v\<lparr>rs_tape := write_tape (rs_tape v) (rs_head_position v) (write_symbol transition),
       rs_head_position :=
         (if movement transition = ''R'' then rs_head_position v + 1
          else if movement transition = ''L'' then rs_head_position v - 1
          else rs_head_position v),
       rs_state := next_state transition,
       rs_memory :=
         (case next_memory transition of Some m \<Rightarrow> Some m | None \<Rightarrow> rs_memory v),
       rs_steps := rs_steps v + 1\<rparr>"

text \<open>
  One pass through the body of the \<open>while\<close> loop: \<open>Inl\<close> is a \<open>return\<close> from inside the
  loop, \<open>Inr\<close> the variables with which the loop goes on.
\<close>

definition loop_body :: "TuringMachine \<Rightarrow> bool \<Rightarrow> run_state \<Rightarrow> MachineResult + run_state" where
  "loop_body self capture_ids v =
     (case read (rs_tape v) (rs_head_position v) of
        (current_symbol, t') \<Rightarrow>
          (case next_transition self (rs_state v) current_symbol (rs_memory v) of
             None \<Rightarrow>
               (let is_final = rs_state v \<in> set (final_states (self_spec self))
                in Inl \<lparr>accepted = is_final, halted = True,
                        reason = (if is_final then reason_final else reason_no_transition),
                        steps = rs_steps v, ids = rs_ids v\<rparr>)
           | Some transition \<Rightarrow>
               (let v' = capture capture_ids (apply_transition (v\<lparr>rs_tape := t'\<rparr>) transition)
                in if rs_state v' \<in> set (final_states (self_spec self))
                   then Inl \<lparr>accepted = True, halted = True, reason = reason_final,
                             steps = rs_steps v', ids = rs_ids v'\<rparr>
                   else Inr v')))"

function run_loop :: "TuringMachine \<Rightarrow> int \<Rightarrow> bool \<Rightarrow> run_state \<Rightarrow> MachineResult" where
  "run_loop self max_steps capture_ids v =
     (if rs_steps v < max_steps then
        (case loop_body self capture_ids v of
           Inl result \<Rightarrow> result
         | Inr v' \<Rightarrow> run_loop self max_steps capture_ids v')
      else \<lparr>accepted = False, halted = False, reason = reason_step_limit,
             steps = rs_steps v, ids = rs_ids v\<rparr>)"
  by pat_completeness auto
termination
  by (relation "measure (\<lambda>(self, max_steps, capture_ids, v). nat (max_steps - rs_steps v))")
     (auto simp: loop_body_def read_def Let_def capture_def apply_transition_def
           split: option.splits if_splits prod.splits)

text \<open>The local variables of \<open>run\<close> as lines 102 to 108 set them, before the first snapshot.\<close>

definition start :: "TuringMachine \<Rightarrow> string \<Rightarrow> run_state" where
  "start self input_string =
     \<lparr>rs_tape = Tape_init (MachineSpecification.blank_symbol (self_spec self)) input_string,
      rs_state = MachineSpecification.initial_state (self_spec self),
      rs_head_position = 0,
      rs_memory = MachineSpecification.initial_memory (self_spec self),
      rs_ids = [], rs_steps = 0\<rparr>"

definition run :: "TuringMachine \<Rightarrow> string \<Rightarrow> int \<Rightarrow> bool \<Rightarrow> MachineResult" where
  "run self input_string max_steps capture_ids =
     run_loop self max_steps capture_ids (capture capture_ids (start self input_string))"

section \<open>machine.py: the simulator as calls on the machine object\<close>

text \<open>
  A call of \<open>run\<close> acts on the object \<open>self\<close>, and a later call finds the object as the
  earlier one left it. To speak of successive calls, the methods are written once more
  with the object made explicit, as for the tape: each returns its result together with
  the machine it leaves behind, and each statement of the source that goes through
  \<open>self\<close> takes the machine from the statement before it. \<open>_next_transition\<close> looks
  \<open>self.transition_map\<close> up with \<open>get\<close>, once or twice; the loop of \<open>run\<close> calls
  \<open>self._next_transition\<close> and reads \<open>self.spec.final_states\<close>; \<open>run\<close> builds its tape and
  its list of descriptions anew from \<open>self.spec\<close> and its arguments.
\<close>

definition next_transition_call ::
  "TuringMachine \<Rightarrow> string \<Rightarrow> string \<Rightarrow> string option \<Rightarrow> Transition option \<times> TuringMachine" where
  "next_transition_call self st symbol mem =
     (case self_transition_map self (transition_key st symbol mem) of
        Some transition \<Rightarrow> (Some transition, self)
      | None \<Rightarrow> (self_transition_map self (transition_key st symbol None), self))"

definition loop_body_call ::
  "TuringMachine \<Rightarrow> bool \<Rightarrow> run_state \<Rightarrow> (MachineResult + run_state) \<times> TuringMachine" where
  "loop_body_call self capture_ids v =
     (case read (rs_tape v) (rs_head_position v) of
        (current_symbol, t') \<Rightarrow>
          (case next_transition_call self (rs_state v) current_symbol (rs_memory v) of
             (None, self') \<Rightarrow>
               (let is_final = rs_state v \<in> set (final_states (self_spec self'))
                in (Inl \<lparr>accepted = is_final, halted = True,
                         reason = (if is_final then reason_final else reason_no_transition),
                         steps = rs_steps v, ids = rs_ids v\<rparr>, self'))
           | (Some transition, self') \<Rightarrow>
               (let v' = capture capture_ids (apply_transition (v\<lparr>rs_tape := t'\<rparr>) transition)
                in if rs_state v' \<in> set (final_states (self_spec self'))
                   then (Inl \<lparr>accepted = True, halted = True, reason = reason_final,
                              steps = rs_steps v', ids = rs_ids v'\<rparr>, self')
                   else (Inr v', self'))))"

function run_loop_call ::
  "TuringMachine \<Rightarrow> int \<Rightarrow> bool \<Rightarrow> run_state \<Rightarrow> MachineResult \<times> TuringMachine" where
  "run_loop_call self max_steps capture_ids v =
     (if rs_steps v < max_steps then
        (case loop_body_call self capture_ids v of
           (Inl result, self') \<Rightarrow> (result, self')
         | (Inr v', self') \<Rightarrow> run_loop_call self' max_steps capture_ids v')
      else (\<lparr>accepted = False, halted = False, reason = reason_step_limit,
              steps = rs_steps v, ids = rs_ids v\<rparr>, self))"
  by pat_completeness auto
termination
  by (relation "measure (\<lambda>(self, max_steps, capture_ids, v). nat (max_steps - rs_steps v))")
     (auto simp: loop_body_call_def next_transition_call_def read_def Let_def capture_def
           apply_transition_def
           split: option.splits if_splits prod.splits)

definition run_call ::
  "TuringMachine \<Rightarrow> string \<Rightarrow> int \<Rightarrow> bool \<Rightarrow> MachineResult \<times> TuringMachine" where
  "run_call self input_string max_steps capture_ids =
     run_loop_call self max_steps capture_ids (capture capture_ids (start self input_string))"

text \<open>
  The machine after a list of calls of \<open>run\<close> made one after the other, each with its own
  input string, step limit and trace flag.
\<close>

fun after_calls :: "TuringMachine \<Rightarrow> (string \<times> int \<times> bool) list \<Rightarrow> TuringMachine" where
  "after_calls self [] = self"
| "after_calls self ((input_string, max_steps, capture_ids) # calls) =
     after_calls (snd (run_call self input_string max_steps capture_ids)) calls"

section \<open>Transitions applied in a row\<close>

text \<open>
  The notions in which the properties of \<open>run\<close> are stated. \<open>current_transition\<close> is
  the rule that lines 125 and 126 resolve for the variables \<open>v\<close>. \<open>after_transitions self n v\<close>
  are the variables after \<open>n\<close> transitions have been applied one after the other from
  \<open>v\<close>, or \<open>None\<close> when a rule is missing on the way; final states, the step limit and
  snapshots play no part in it. \<open>snapshot\<close> is the instantaneous description of the
  variables \<open>v\<close>, and \<open>snapshots_after self n v\<close> lists the descriptions of the variables
  after 1, 2, ..., \<open>n\<close> transitions from \<open>v\<close>.
\<close>

definition current_transition :: "TuringMachine \<Rightarrow> run_state \<Rightarrow> Transition option" where
  "current_transition self v =
     next_transition self (rs_state v) (fst (read (rs_tape v) (rs_head_position v)))
       (rs_memory v)"

fun after_transitions :: "TuringMachine \<Rightarrow> nat \<Rightarrow> run_state \<Rightarrow> run_state option" where
  "after_transitions self 0 v = Some v"
| "after_transitions self (Suc n) v =
     (case current_transition self v of
        None \<Rightarrow> None
      | Some transition \<Rightarrow> after_transitions self n (apply_transition v transition))"

definition snapshot :: "run_state \<Rightarrow> InstantaneousDescription" where
  "snapshot v =
     \<lparr>step = rs_steps v, state = rs_state v, head_position = rs_head_position v,
      tape_view = fst (view (rs_tape v) (rs_head_position v) 20), memory = rs_memory v\<rparr>"

fun snapshots_after :: "TuringMachine \<Rightarrow> nat \<Rightarrow> run_state \<Rightarrow> InstantaneousDescription list" where
  "snapshots_after self 0 v = []"
| "snapshots_after self (Suc n) v =
     (case current_transition self v of
        None \<Rightarrow> []
      | Some transition \<Rightarrow>
          snapshot (apply_transition v transition)
            # snapshots_after self n (apply_transition v transition))"

text \<open>
  \<open>reaches_final self n v\<close>: one of the first \<open>n\<close> transitions applied from \<open>v\<close> leads
  into a final state.
\<close>

fun reaches_final :: "TuringMachine \<Rightarrow> nat \<Rightarrow> run_state \<Rightarrow> bool" where
  "reaches_final self 0 v = False"
| "reaches_final self (Suc n) v =
     (case current_transition self v of
        None \<Rightarrow> False
      | Some transition \<Rightarrow>
          next_state transition \<in> set (final_states (self_spec self))
          \<or> reaches_final self n (apply_transition v transition))"

section \<open>Example machines\<close>

text \<open>
  A specification with the given states, final states, transitions and initial memory,
  over the tape alphabet \<open>0\<close>, \<open>1\<close>, \<open>a\<close>, \<open>_\<close> with blank \<open>_\<close> and initial state \<open>q0\<close>.
\<close>

definition example_spec ::
  "string list \<Rightarrow> string list \<Rightarrow> Transition list \<Rightarrow> string option \<Rightarrow> MachineSpecification" where
  "example_spec qs finals delta mem =
     \<lparr>states = qs, initial_state = ''q0'', final_states = finals,
      input_alphabet = [''0'', ''1'', ''a''], tape_alphabet = [''0'', ''1'', ''a'', ''_''],
      blank_symbol = ''_'', transitions = delta, simulation_strings = [],
      memory_alphabet = (case mem of None \<Rightarrow> None | Some m \<Rightarrow> Some [m, ''other'']),
      initial_memory = mem\<rparr>"

definition rule ::
  "string \<Rightarrow> string \<Rightarrow> string option \<Rightarrow> string \<Rightarrow> string \<Rightarrow> string \<Rightarrow> string option \<Rightarrow> Transition" where
  "rule q a m q' b d m' =
     \<lparr>Transition.initial_state = q, read_symbol = a, next_state = q', write_symbol = b,
      movement = d, Transition.initial_memory = m, next_memory = m'\<rparr>"

text \<open>One rule from \<open>q0\<close> on \<open>1\<close> into the final state \<open>qf\<close>.\<close>

definition unary_machine :: TuringMachine where
  "unary_machine =
     TuringMachine_init
       (example_spec [''q0'', ''qf''] [''qf'']
          [rule ''q0'' ''1'' None ''qf'' ''1'' ''S'' None] None)"

text \<open>No final state and a rule that stays on \<open>a\<close> for ever.\<close>

definition looping_machine :: TuringMachine where
  "looping_machine =
     TuringMachine_init
       (example_spec [''q0''] [] [rule ''q0'' ''a'' None ''q0'' ''a'' ''S'' None] None)"

text \<open>No final state and a rule that moves right over \<open>a\<close>; nothing is defined on the blank.\<close>

definition right_machine :: TuringMachine where
  "right_machine =
     TuringMachine_init
       (example_spec [''q0''] [] [rule ''q0'' ''a'' None ''q0'' ''a'' ''R'' None] None)"

text \<open>A wildcard rule and a rule for the memory value \<open>seen\<close> on the same state and symbol.\<close>

definition memory_machine :: TuringMachine where
  "memory_machine =
     TuringMachine_init
       (example_spec [''q0'', ''q1'', ''qf''] [''qf'']
          [rule ''q0'' ''0'' None ''q1'' ''0'' ''R'' None,
           rule ''q0'' ''0'' (Some ''seen'') ''qf'' ''0'' ''S'' None] (Some ''seen''))"

text \<open>Two rules with the same key and different outputs.\<close>

definition duplicate_spec :: MachineSpecification where
  "duplicate_spec =
     example_spec [''q0'', ''q1'', ''qf''] [''qf'']
       [rule ''q0'' ''1'' None ''q1'' ''1'' ''R'' None,
        rule ''q0'' ''1'' None ''qf'' ''0'' ''S'' None] None"

section \<open>The tape\<close>

lemma view_loop_tape: "snd (view_loop t head indices acc) = t"
  by (induction indices arbitrary: acc) (simp_all add: read_def)

lemma view_tape: "snd (view t head radius) = t"
proof -
  obtain acc t' where v: "view_loop t head [min (min_index t) (head - radius)..max (max_index t) (head + radius)] [] = (acc, t')"
    by (cases "view_loop t head [min (min_index t) (head - radius)..max (max_index t) (head + radius)] []")
  with view_loop_tape [of t head "[min (min_index t) (head - radius)..max (max_index t) (head + radius)]" "[]"]
  have "t' = t" by simp
  with v show ?thesis by (simp add: view_def Let_def)
qed

lemma read_tape: "snd (read t position) = t"
  by (simp add: read_def)

lemma read_unwritten: "cells t position = None \<Longrightarrow> fst (read t position) = Tape.blank_symbol t"
  by (simp add: read_def)

lemma read_write_tape: "fst (read (write_tape t position symbol) position) = symbol"
  by (simp add: read_def write_tape_def)

lemma Tape_init_store_pair:
  "Tape_init_store t (index, symbol) =
     t\<lparr>cells := (cells t)(int index \<mapsto> [symbol]), max_index := int index\<rparr>"
  by (simp add: Tape_init_store_def)

lemma init_loop_min_index:
  "min_index (foldl Tape_init_store t (enumerate n xs)) = min_index t"
  by (induction xs arbitrary: n t) (simp_all add: Tape_init_store_pair)

lemma init_loop_blank_symbol:
  "Tape.blank_symbol (foldl Tape_init_store t (enumerate n xs)) = Tape.blank_symbol t"
  by (induction xs arbitrary: n t) (simp_all add: Tape_init_store_pair)

lemma init_loop_max_index:
  "max_index (foldl Tape_init_store t (enumerate n xs)) =
   (if xs = [] then max_index t else int n + int (length xs) - 1)"
  by (induction xs arbitrary: n t) (simp_all add: Tape_init_store_pair)

lemma init_loop_cells_outside:
  "i < int n \<or> int n + int (length xs) \<le> i \<Longrightarrow>
   cells (foldl Tape_init_store t (enumerate n xs)) i = cells t i"
  by (induction xs arbitrary: n t) (auto simp: Tape_init_store_pair)

lemma init_loop_cells_inside:
  "int n \<le> i \<Longrightarrow> i < int n + int (length xs) \<Longrightarrow>
   cells (foldl Tape_init_store t (enumerate n xs)) i = Some [xs ! nat (i - int n)]"
proof (induction xs arbitrary: n t)
  case Nil
  then show ?case by simp
next
  case (Cons x xs)
  show ?case
  proof (cases "i = int n")
    case True
    have "cells (foldl Tape_init_store (Tape_init_store t (n, x)) (enumerate (Suc n) xs)) i
          = cells (Tape_init_store t (n, x)) i"
      by (rule init_loop_cells_outside) (simp add: True)
    with True show ?thesis by (simp add: Tape_init_store_pair)
  next
    case False
    with Cons.prems have bounds: "int (Suc n) \<le> i" "i < int (Suc n) + int (length xs)"
      by simp_all
    from False Cons.prems(1) have idx: "nat (i - int n) = Suc (nat (i - int (Suc n)))"
      by simp
    have "cells (foldl Tape_init_store (Tape_init_store t (n, x)) (enumerate (Suc n) xs)) i
          = Some [xs ! nat (i - int (Suc n))]"
      by (rule Cons.IH [OF bounds])
    then show ?thesis
      unfolding enumerate_simps foldl_Cons idx nth_Cons_Suc .
  qed
qed

lemma Tape_init_blank_symbol: "Tape.blank_symbol (Tape_init blank initial_input) = blank"
  by (simp add: Tape_init_def Let_def init_loop_blank_symbol)

lemma Tape_init_min_index: "min_index (Tape_init blank initial_input) = 0"
  by (simp add: Tape_init_def Let_def init_loop_min_index)

lemma Tape_init_max_index:
  "max_index (Tape_init blank initial_input) = max 0 (int (length initial_input) - 1)"
  by (cases initial_input)
     (simp_all add: Tape_init_def Let_def init_loop_max_index Tape_init_store_pair)

lemma Tape_init_empty_cell: "cells (Tape_init blank []) 0 = Some blank"
  by (simp add: Tape_init_def)

lemma Tape_init_cells_input:
  "0 \<le> i \<Longrightarrow> i < int (length initial_input) \<Longrightarrow>
   cells (Tape_init blank initial_input) i = Some [initial_input ! nat i]"
  using init_loop_cells_inside [of 0 i initial_input]
  by (cases initial_input) (simp_all add: Tape_init_def Let_def)

lemma Tape_init_cells_outside:
  "i < 0 \<or> int (length initial_input) \<le> i \<Longrightarrow>
   cells (Tape_init blank initial_input) i =
     (if initial_input = [] \<and> i = 0 then Some blank else None)"
  using init_loop_cells_outside [of i 0 initial_input]
  by (cases initial_input) (simp_all add: Tape_init_def Let_def)

lemma writes_blank_symbol:
  "Tape.blank_symbol (foldl (\<lambda>t (q, y). write_tape t q y) t ws) = Tape.blank_symbol t"
  by (induction ws arbitrary: t) (simp_all add: write_tape_def split: prod.splits)

lemma writes_cells_elsewhere:
  "p \<notin> fst ` set ws \<Longrightarrow> cells (foldl (\<lambda>t (q, y). write_tape t q y) t ws) p = cells t p"
  by (induction ws arbitrary: t) (auto simp: write_tape_def split: prod.splits)

lemma read_never_written:
  assumes "p \<notin> fst ` set ws" and "p < 0 \<or> int (length initial_input) \<le> p"
  shows "fst (read (foldl (\<lambda>t (q, y). write_tape t q y) (Tape_init blank initial_input) ws) p)
         = blank"
  using assms
  by (simp add: read_def writes_cells_elsewhere writes_blank_symbol Tape_init_cells_outside
        Tape_init_blank_symbol)

text \<open>
  C6. Reading a position that was neither initialised from the input string nor written by
  any of the writes made since construction returns the blank symbol; and reading a
  position right after writing a symbol there returns that symbol. The first part is
  stated twice: for a tape reached from its constructor by any sequence of writes, and
  for any tape whose cell dictionary has no entry at the position.
\<close>

theorem read_blank_and_read_after_write:
  "(p \<notin> fst ` set ws \<and> (p < 0 \<or> int (length initial_input) \<le> p) \<longrightarrow>
      fst (read (foldl (\<lambda>t (q, y). write_tape t q y) (Tape_init blank initial_input) ws) p)
        = blank)
   \<and> (cells t p = None \<longrightarrow> fst (read t p) = Tape.blank_symbol t)
   \<and> fst (read (write_tape t p x) p) = x"
  using read_never_written [of p ws initial_input blank] read_unwritten [of t p]
    read_write_tape [of t p x]
  by blast

theorem read_blank_and_read_after_write_witness:
  "(7::int) \<notin> fst ` set [(2, ''x''), (-1, ''y'')] \<and> int (length ''ab'') \<le> 7
   \<and> fst (read (foldl (\<lambda>t (q, y). write_tape t q y) (Tape_init ''_'' ''ab'')
                  [(2, ''x''), (-1, ''y'')]) 7) = ''_''
   \<and> cells (Tape_init ''_'' ''ab'') 7 = None
   \<and> fst (read (Tape_init ''_'' ''ab'') 7) = Tape.blank_symbol (Tape_init ''_'' ''ab'')
   \<and> fst (read (write_tape (Tape_init ''_'' ''ab'') 7 ''z'') 7) = ''z''"
proof -
  have a: "(7::int) \<notin> fst ` set [(2, ''x''), (-1, ''y'')]" by simp
  have b: "int (length ''ab'') \<le> 7" by simp
  have c: "cells (Tape_init ''_'' ''ab'') 7 = None"
    by (simp add: Tape_init_cells_outside)
  from a b c
    read_blank_and_read_after_write [of 7 "[(2, ''x''), (-1, ''y'')]" "''ab''" "''_''"
      "Tape_init ''_'' ''ab''" "''z''"]
  show ?thesis by blast
qed

text \<open>
  C8 as stated fails: the constructor's loop sets \<open>max_index\<close> to the index of each
  character it stores, so for an input of two characters \<open>max_index\<close> is 1.
\<close>

theorem Tape_init_max_index_counterexample:
  "\<not> (min_index (Tape_init ''_'' ''ab'') = 0 \<and> max_index (Tape_init ''_'' ''ab'') = 0)"
  by (simp add: Tape_init_max_index)

text \<open>
  C8, amended. Right after construction \<open>min_index\<close> is 0 and \<open>max_index\<close> is the index of
  the last input character (0 for an empty or one-character input); for the empty input,
  cell 0 holds the blank symbol.
\<close>

theorem Tape_init_indices:
  "min_index (Tape_init blank initial_input) = 0
   \<and> max_index (Tape_init blank initial_input) = max 0 (int (length initial_input) - 1)
   \<and> cells (Tape_init blank []) 0 = Some blank"
  by (simp add: Tape_init_min_index Tape_init_max_index Tape_init_empty_cell)

text \<open>
  C10. \<open>read\<close> and \<open>view\<close> leave the tape as it was: the cell dictionary, \<open>min_index\<close> and
  \<open>max_index\<close> after the call are those before it, also for a position with no cell, so a
  second read of the same position returns the same symbol.
\<close>

theorem read_view_leave_tape:
  "cells (snd (read t position)) = cells t
   \<and> min_index (snd (read t position)) = min_index t
   \<and> max_index (snd (read t position)) = max_index t
   \<and> cells (snd (view t head radius)) = cells t
   \<and> min_index (snd (view t head radius)) = min_index t
   \<and> max_index (snd (view t head radius)) = max_index t
   \<and> snd (read t position) = t \<and> snd (view t head radius) = t
   \<and> fst (read (snd (read t position)) position) = fst (read t position)"
  by (simp add: read_tape view_tape)

section \<open>The transition table\<close>

lemma transition_key_empty_memory:
  "transition_key st symbol (Some '''') = transition_key st symbol None"
  by (simp add: transition_key_def)

lemma transition_key_star_memory:
  "transition_key st symbol (Some ''*'') = transition_key st symbol None"
  by (simp add: transition_key_def)

lemma assign_all_lookup:
  "foldl (\<lambda>mapping transition. mapping(key_of transition \<mapsto> transition)) m ts k =
     (case filter (\<lambda>u. key_of u = k) ts of [] \<Rightarrow> m k | u # us \<Rightarrow> Some (last (u # us)))"
proof (induction ts rule: rev_induct)
  case Nil
  then show ?case by simp
next
  case (snoc t ts)
  then show ?case by (cases "key_of t = k") (simp_all split: list.splits)
qed

lemma transition_map_lookup:
  "transition_map spec k =
     (case filter (\<lambda>u. key_of u = k) (transitions spec) of
        [] \<Rightarrow> None
      | u # us \<Rightarrow> Some (last (u # us)))"
  by (simp add: transition_map_def assign_all_lookup)

lemma transition_map_member:
  assumes "t \<in> set (transitions spec)"
  shows "transition_map spec (key_of t) =
         Some (last (filter (\<lambda>u. key_of u = key_of t) (transitions spec)))"
proof -
  from assms have "t \<in> set (filter (\<lambda>u. key_of u = key_of t) (transitions spec))" by simp
  then have "filter (\<lambda>u. key_of u = key_of t) (transitions spec) \<noteq> []" by force
  then show ?thesis by (simp add: transition_map_lookup split: list.splits)
qed

lemma next_transition_exact:
  "self_transition_map self (transition_key st symbol mem) = Some transition \<Longrightarrow>
   next_transition self st symbol mem = Some transition"
  by (simp add: next_transition_def)

lemma next_transition_fallback:
  "self_transition_map self (transition_key st symbol mem) = None \<Longrightarrow>
   next_transition self st symbol mem = self_transition_map self (transition_key st symbol None)"
  by (simp add: next_transition_def)

lemma next_transition_wildcard_key:
  "transition_key st symbol mem = transition_key st symbol None \<Longrightarrow>
   next_transition self st symbol mem = self_transition_map self (transition_key st symbol None)"
  by (simp add: next_transition_def split: option.splits)

lemma memory_machine_exact_entry:
  "self_transition_map memory_machine (transition_key ''q0'' ''0'' (Some ''seen''))
   = Some (rule ''q0'' ''0'' (Some ''seen'') ''qf'' ''0'' ''S'' None)"
  by (simp add: memory_machine_def TuringMachine_init_def example_spec_def
        transition_map_def key_of_def transition_key_def rule_def)

lemma memory_machine_wildcard_entry:
  "self_transition_map memory_machine (transition_key ''q0'' ''0'' None)
   = Some (rule ''q0'' ''0'' None ''q1'' ''0'' ''R'' None)"
  by (simp add: memory_machine_def TuringMachine_init_def example_spec_def
        transition_map_def key_of_def transition_key_def rule_def)

lemma memory_machine_no_entry:
  "self_transition_map memory_machine (transition_key ''q0'' ''1'' (Some ''seen'')) = None"
  by (simp add: memory_machine_def TuringMachine_init_def example_spec_def
        transition_map_def key_of_def transition_key_def rule_def)

text \<open>
  C1. When the table holds, under the key of \<open>(s, c, m)\<close>, a rule for the memory value \<open>m\<close>
  and, under the wildcard key of \<open>(s, c)\<close>, a rule without memory, resolving \<open>(s, c, m)\<close>
  returns the former and not the latter. Whatever the table holds, the result is the
  entry under the exact key when there is one, and the entry under the wildcard key only
  when there is none. The two keys are different for every memory value other than the
  empty string and \<open>*\<close>.
\<close>

theorem next_transition_prefers_exact:
  "(self_transition_map self (transition_key s c (Some m)) = Some exact
      \<and> Transition.initial_memory exact = Some m
      \<and> self_transition_map self (transition_key s c None) = Some wild
      \<and> Transition.initial_memory wild = None
    \<longrightarrow> next_transition self s c (Some m) = Some exact
        \<and> next_transition self s c (Some m) \<noteq> Some wild)
   \<and> (self_transition_map self (transition_key s c (Some m)) \<noteq> None
    \<longrightarrow> next_transition self s c (Some m)
          = self_transition_map self (transition_key s c (Some m)))
   \<and> (self_transition_map self (transition_key s c (Some m)) = None
    \<longrightarrow> next_transition self s c (Some m)
          = self_transition_map self (transition_key s c None))
   \<and> (m \<noteq> [] \<and> m \<noteq> ''*''
    \<longrightarrow> transition_key s c (Some m) \<noteq> transition_key s c None)"
  by (auto simp: next_transition_def transition_key_def)

theorem next_transition_prefers_exact_witness:
  "self_transition_map memory_machine (transition_key ''q0'' ''0'' (Some ''seen''))
     = Some (rule ''q0'' ''0'' (Some ''seen'') ''qf'' ''0'' ''S'' None)
   \<and> Transition.initial_memory (rule ''q0'' ''0'' (Some ''seen'') ''qf'' ''0'' ''S'' None)
     = Some ''seen''
   \<and> self_transition_map memory_machine (transition_key ''q0'' ''0'' None)
     = Some (rule ''q0'' ''0'' None ''q1'' ''0'' ''R'' None)
   \<and> Transition.initial_memory (rule ''q0'' ''0'' None ''q1'' ''0'' ''R'' None) = None
   \<and> next_transition memory_machine ''q0'' ''0'' (Some ''seen'')
     = Some (rule ''q0'' ''0'' (Some ''seen'') ''qf'' ''0'' ''S'' None)
   \<and> next_transition memory_machine ''q0'' ''0'' (Some ''seen'')
     \<noteq> Some (rule ''q0'' ''0'' None ''q1'' ''0'' ''R'' None)
   \<and> self_transition_map memory_machine (transition_key ''q0'' ''1'' (Some ''seen'')) = None
   \<and> next_transition memory_machine ''q0'' ''1'' (Some ''seen'')
     = self_transition_map memory_machine (transition_key ''q0'' ''1'' None)
   \<and> ''seen'' \<noteq> [] \<and> ''seen'' \<noteq> ''*''
   \<and> transition_key ''q0'' ''0'' (Some ''seen'') \<noteq> transition_key ''q0'' ''0'' None"
proof -
  have h: "''seen'' \<noteq> [] \<and> ''seen'' \<noteq> ''*''" by simp
  note a = memory_machine_exact_entry
  have b: "Transition.initial_memory (rule ''q0'' ''0'' (Some ''seen'') ''qf'' ''0'' ''S'' None)
           = Some ''seen''"
    by (simp add: rule_def)
  note c = memory_machine_wildcard_entry
  have d: "Transition.initial_memory (rule ''q0'' ''0'' None ''q1'' ''0'' ''R'' None) = None"
    by (simp add: rule_def)
  note e = memory_machine_no_entry
  from a b c d
    next_transition_prefers_exact [of memory_machine "''q0''" "''0''" "''seen''"
      "rule ''q0'' ''0'' (Some ''seen'') ''qf'' ''0'' ''S'' None"
      "rule ''q0'' ''0'' None ''q1'' ''0'' ''R'' None"]
  have f: "next_transition memory_machine ''q0'' ''0'' (Some ''seen'')
             = Some (rule ''q0'' ''0'' (Some ''seen'') ''qf'' ''0'' ''S'' None)
           \<and> next_transition memory_machine ''q0'' ''0'' (Some ''seen'')
             \<noteq> Some (rule ''q0'' ''0'' None ''q1'' ''0'' ''R'' None)"
    by blast
  from e
    next_transition_prefers_exact [of memory_machine "''q0''" "''1''" "''seen''"
      "rule ''q0'' ''0'' (Some ''seen'') ''qf'' ''0'' ''S'' None"
      "rule ''q0'' ''0'' None ''q1'' ''0'' ''R'' None"]
  have g: "next_transition memory_machine ''q0'' ''1'' (Some ''seen'')
           = self_transition_map memory_machine (transition_key ''q0'' ''1'' None)"
    by blast
  from h
    next_transition_prefers_exact [of memory_machine "''q0''" "''0''" "''seen''"
      "rule ''q0'' ''0'' (Some ''seen'') ''qf'' ''0'' ''S'' None"
      "rule ''q0'' ''0'' None ''q1'' ''0'' ''R'' None"]
  have k: "transition_key ''q0'' ''0'' (Some ''seen'') \<noteq> transition_key ''q0'' ''0'' None"
    by blast
  from a b c d e f g h k show ?thesis by blast
qed

text \<open>
  C7. For a transition of the list, the built map holds under its key the last transition
  of the list that has this key, and resolving the transition's own state, symbol and
  memory returns that last transition.
\<close>

theorem transition_map_last_wins:
  assumes "t \<in> set (transitions spec)"
  shows "transition_map spec (key_of t)
           = Some (last (filter (\<lambda>u. key_of u = key_of t) (transitions spec)))
         \<and> next_transition (TuringMachine_init spec) (Transition.initial_state t)
             (read_symbol t) (Transition.initial_memory t)
           = Some (last (filter (\<lambda>u. key_of u = key_of t) (transitions spec)))"
proof -
  have m: "transition_map spec (key_of t)
           = Some (last (filter (\<lambda>u. key_of u = key_of t) (transitions spec)))"
    by (rule transition_map_member [OF assms])
  then have "self_transition_map (TuringMachine_init spec)
               (transition_key (Transition.initial_state t) (read_symbol t)
                  (Transition.initial_memory t))
             = Some (last (filter (\<lambda>u. key_of u = key_of t) (transitions spec)))"
    by (simp add: TuringMachine_init_def key_of_def)
  from next_transition_exact [OF this] m show ?thesis by simp
qed

theorem transition_map_last_wins_witness:
  "rule ''q0'' ''1'' None ''q1'' ''1'' ''R'' None \<in> set (transitions duplicate_spec)
   \<and> transition_map duplicate_spec (transition_key ''q0'' ''1'' None)
     = Some (rule ''q0'' ''1'' None ''qf'' ''0'' ''S'' None)
   \<and> next_transition (TuringMachine_init duplicate_spec) ''q0'' ''1'' None
     = Some (rule ''q0'' ''1'' None ''qf'' ''0'' ''S'' None)"
proof -
  have a: "rule ''q0'' ''1'' None ''q1'' ''1'' ''R'' None \<in> set (transitions duplicate_spec)"
    by (simp add: duplicate_spec_def example_spec_def)
  have b: "last (filter (\<lambda>u. key_of u = key_of (rule ''q0'' ''1'' None ''q1'' ''1'' ''R'' None))
                   (transitions duplicate_spec))
           = rule ''q0'' ''1'' None ''qf'' ''0'' ''S'' None"
    by (simp add: duplicate_spec_def example_spec_def key_of_def rule_def)
  have c: "key_of (rule ''q0'' ''1'' None ''q1'' ''1'' ''R'' None)
           = transition_key ''q0'' ''1'' None"
    by (simp add: key_of_def rule_def)
  have d: "Transition.initial_state (rule ''q0'' ''1'' None ''q1'' ''1'' ''R'' None) = ''q0''
           \<and> read_symbol (rule ''q0'' ''1'' None ''q1'' ''1'' ''R'' None) = ''1''
           \<and> Transition.initial_memory (rule ''q0'' ''1'' None ''q1'' ''1'' ''R'' None) = None"
    by (simp add: rule_def)
  from transition_map_last_wins [OF a] have
    "transition_map duplicate_spec (key_of (rule ''q0'' ''1'' None ''q1'' ''1'' ''R'' None))
       = Some (rule ''q0'' ''1'' None ''qf'' ''0'' ''S'' None)
     \<and> next_transition (TuringMachine_init duplicate_spec)
         (Transition.initial_state (rule ''q0'' ''1'' None ''q1'' ''1'' ''R'' None))
         (read_symbol (rule ''q0'' ''1'' None ''q1'' ''1'' ''R'' None))
         (Transition.initial_memory (rule ''q0'' ''1'' None ''q1'' ''1'' ''R'' None))
       = Some (rule ''q0'' ''1'' None ''qf'' ''0'' ''S'' None)"
    unfolding b .
  with a c d show ?thesis by simp
qed

text \<open>
  C9. The empty string and the string \<open>*\<close> as memory give the key of the wildcard, so
  resolving with either returns what the table holds under the wildcard key, found by
  the first lookup; and a transition declared with the empty string as its memory is
  filed under the wildcard key of its state and symbol.
\<close>

theorem empty_and_star_memory_are_wildcard:
  "transition_key s c (Some '''') = transition_key s c None
   \<and> transition_key s c (Some ''*'') = transition_key s c None
   \<and> next_transition self s c (Some '''') = self_transition_map self (transition_key s c None)
   \<and> next_transition self s c (Some ''*'') = self_transition_map self (transition_key s c None)
   \<and> (self_transition_map self (transition_key s c None) = Some wild \<longrightarrow>
        self_transition_map self (transition_key s c (Some '''')) = Some wild
        \<and> self_transition_map self (transition_key s c (Some ''*'')) = Some wild)
   \<and> (Transition.initial_memory t = Some '''' \<longrightarrow>
        key_of t = transition_key (Transition.initial_state t) (read_symbol t) None
        \<and> transition_map (spec\<lparr>transitions := ts @ [t]\<rparr>)
            (transition_key (Transition.initial_state t) (read_symbol t) None) = Some t)"
proof -
  have k1: "transition_key s c (Some '''') = transition_key s c None"
    by (rule transition_key_empty_memory)
  have k2: "transition_key s c (Some ''*'') = transition_key s c None"
    by (rule transition_key_star_memory)
  have n1: "next_transition self s c (Some '''')
            = self_transition_map self (transition_key s c None)"
    by (rule next_transition_wildcard_key [OF k1])
  have n2: "next_transition self s c (Some ''*'')
            = self_transition_map self (transition_key s c None)"
    by (rule next_transition_wildcard_key [OF k2])
  have st: "Transition.initial_memory t = Some '''' \<longrightarrow>
        key_of t = transition_key (Transition.initial_state t) (read_symbol t) None
        \<and> transition_map (spec\<lparr>transitions := ts @ [t]\<rparr>)
            (transition_key (Transition.initial_state t) (read_symbol t) None) = Some t"
    by (simp add: key_of_def transition_key_def transition_map_def)
  from k1 k2 n1 n2 st show ?thesis by simp
qed

theorem empty_and_star_memory_are_wildcard_witness:
  "self_transition_map memory_machine (transition_key ''q0'' ''0'' None)
     = Some (rule ''q0'' ''0'' None ''q1'' ''0'' ''R'' None)
   \<and> next_transition memory_machine ''q0'' ''0'' (Some '''')
     = Some (rule ''q0'' ''0'' None ''q1'' ''0'' ''R'' None)
   \<and> next_transition memory_machine ''q0'' ''0'' (Some ''*'')
     = Some (rule ''q0'' ''0'' None ''q1'' ''0'' ''R'' None)
   \<and> Transition.initial_memory (rule ''q0'' ''0'' (Some '''') ''qf'' ''0'' ''S'' None) = Some ''''
   \<and> transition_map (duplicate_spec\<lparr>transitions :=
         [rule ''q0'' ''0'' None ''q1'' ''0'' ''R'' None]
         @ [rule ''q0'' ''0'' (Some '''') ''qf'' ''0'' ''S'' None]\<rparr>)
       (transition_key ''q0'' ''0'' None)
     = Some (rule ''q0'' ''0'' (Some '''') ''qf'' ''0'' ''S'' None)"
proof -
  note a = memory_machine_wildcard_entry
  have b: "Transition.initial_memory (rule ''q0'' ''0'' (Some '''') ''qf'' ''0'' ''S'' None)
           = Some ''''"
    by (simp add: rule_def)
  have c: "Transition.initial_state (rule ''q0'' ''0'' (Some '''') ''qf'' ''0'' ''S'' None) = ''q0''
           \<and> read_symbol (rule ''q0'' ''0'' (Some '''') ''qf'' ''0'' ''S'' None) = ''0''"
    by (simp add: rule_def)
  from a b c
    empty_and_star_memory_are_wildcard [where s = "''q0''" and c = "''0''"
      and self = memory_machine and wild = "rule ''q0'' ''0'' None ''q1'' ''0'' ''R'' None"
      and t = "rule ''q0'' ''0'' (Some '''') ''qf'' ''0'' ''S'' None" and spec = duplicate_spec
      and ts = "[rule ''q0'' ''0'' None ''q1'' ''0'' ''R'' None]"]
  show ?thesis by simp
qed

section \<open>The run loop\<close>

declare run_loop.simps [simp del]

lemma capture_snapshot:
  "capture capture_ids v = v\<lparr>rs_ids := rs_ids v @ (if capture_ids then [snapshot v] else [])\<rparr>"
proof (cases capture_ids)
  case False
  then show ?thesis by (simp add: capture_def)
next
  case True
  obtain rendered t' where v: "view (rs_tape v) (rs_head_position v) 20 = (rendered, t')"
    by (cases "view (rs_tape v) (rs_head_position v) 20")
  with view_tape [of "rs_tape v" "rs_head_position v" 20] have "t' = rs_tape v" by simp
  with v True show ?thesis by (simp add: capture_def snapshot_def)
qed

lemma loop_body_cases:
  "loop_body self capture_ids v =
     (case current_transition self v of
        None \<Rightarrow>
          Inl \<lparr>accepted = rs_state v \<in> set (final_states (self_spec self)), halted = True,
               reason = (if rs_state v \<in> set (final_states (self_spec self))
                         then reason_final else reason_no_transition),
               steps = rs_steps v, ids = rs_ids v\<rparr>
      | Some transition \<Rightarrow>
          (if next_state transition \<in> set (final_states (self_spec self))
           then Inl \<lparr>accepted = True, halted = True, reason = reason_final,
                     steps = rs_steps v + 1,
                     ids = rs_ids v @
                       (if capture_ids then [snapshot (apply_transition v transition)] else [])\<rparr>
           else Inr ((apply_transition v transition)
                  \<lparr>rs_ids := rs_ids v @
                     (if capture_ids then [snapshot (apply_transition v transition)] else [])\<rparr>)))"
  by (simp add: loop_body_def read_def current_transition_def capture_snapshot Let_def
        apply_transition_def split: option.splits)

lemma current_transition_ids [simp]:
  "current_transition self (v\<lparr>rs_ids := i\<rparr>) = current_transition self v"
  by (simp add: current_transition_def)

lemma apply_transition_ids [simp]:
  "apply_transition (v\<lparr>rs_ids := i\<rparr>) transition = (apply_transition v transition)\<lparr>rs_ids := i\<rparr>"
  by (cases "next_memory transition") (simp_all add: apply_transition_def)

lemma snapshot_ids [simp]: "snapshot (v\<lparr>rs_ids := i\<rparr>) = snapshot v"
  by (simp add: snapshot_def)

lemma apply_transition_fields [simp]:
  "rs_steps (apply_transition v transition) = rs_steps v + 1"
  "rs_ids (apply_transition v transition) = rs_ids v"
  "rs_state (apply_transition v transition) = next_state transition"
  by (simp_all add: apply_transition_def)

lemma after_transitions_ids:
  "after_transitions self n (v\<lparr>rs_ids := i\<rparr>)
   = map_option (\<lambda>w. w\<lparr>rs_ids := i\<rparr>) (after_transitions self n v)"
  by (induction n arbitrary: v) (simp_all split: option.splits)

lemma snapshots_after_ids [simp]:
  "snapshots_after self n (v\<lparr>rs_ids := i\<rparr>) = snapshots_after self n v"
  by (induction n arbitrary: v) (simp_all split: option.splits)

lemma reaches_final_ids [simp]:
  "reaches_final self n (v\<lparr>rs_ids := i\<rparr>) = reaches_final self n v"
  by (induction n arbitrary: v) (simp_all split: option.splits)

lemma after_transitions_steps:
  "after_transitions self n v = Some w \<Longrightarrow> rs_steps w = rs_steps v + int n"
  by (induction n arbitrary: v) (auto split: option.splits)

lemma after_transitions_rs_ids:
  "after_transitions self n v = Some w \<Longrightarrow> rs_ids w = rs_ids v"
  by (induction n arbitrary: v) (auto split: option.splits)

lemma after_transitions_add:
  "after_transitions self (n + m) v =
     (case after_transitions self n v of
        None \<Rightarrow> None
      | Some u \<Rightarrow> after_transitions self m u)"
  by (induction n arbitrary: v) (simp_all split: option.splits)

lemma after_transitions_Suc_end:
  "after_transitions self n v = Some w \<Longrightarrow>
   after_transitions self (Suc n) v =
     (case current_transition self w of
        None \<Rightarrow> None
      | Some transition \<Rightarrow> Some (apply_transition w transition))"
  using after_transitions_add [of self n 1 v] by (simp split: option.splits)

lemma after_transitions_prefix:
  "after_transitions self n v = Some w \<Longrightarrow> k \<le> n \<Longrightarrow> \<exists>u. after_transitions self k v = Some u"
  using after_transitions_add [of self k "n - k" v] by (auto split: option.splits)

lemma snapshots_after_Suc_end:
  "after_transitions self n v = Some w \<Longrightarrow> current_transition self w = Some transition \<Longrightarrow>
   snapshots_after self (Suc n) v
   = snapshots_after self n v @ [snapshot (apply_transition w transition)]"
proof (induction n arbitrary: v)
  case 0
  then show ?case by simp
next
  case (Suc n)
  from Suc.prems(1) obtain t0 where t0: "current_transition self v = Some t0"
    and rest: "after_transitions self n (apply_transition v t0) = Some w"
    by (auto split: option.splits)
  have "snapshots_after self (Suc (Suc n)) v
        = snapshot (apply_transition v t0)
            # snapshots_after self (Suc n) (apply_transition v t0)"
    by (simp only: snapshots_after.simps(2) [of self "Suc n" v] t0 option.case)
  also have "\<dots> = snapshot (apply_transition v t0)
        # (snapshots_after self n (apply_transition v t0)
            @ [snapshot (apply_transition w transition)])"
    by (simp only: Suc.IH [OF rest Suc.prems(2)])
  also have "\<dots> = snapshots_after self (Suc n) v @ [snapshot (apply_transition w transition)]"
    by (simp only: snapshots_after.simps(2) [of self n v] t0 option.case append_Cons)
  finally show ?case .
qed

lemma reaches_final_Suc_end:
  "after_transitions self n v = Some w \<Longrightarrow> current_transition self w = Some transition \<Longrightarrow>
   reaches_final self (Suc n) v
   = (reaches_final self n v \<or> next_state transition \<in> set (final_states (self_spec self)))"
proof (induction n arbitrary: v)
  case 0
  then show ?case by simp
next
  case (Suc n)
  from Suc.prems(1) obtain t0 where t0: "current_transition self v = Some t0"
    and rest: "after_transitions self n (apply_transition v t0) = Some w"
    by (auto split: option.splits)
  have "reaches_final self (Suc (Suc n)) v
        = (next_state t0 \<in> set (final_states (self_spec self))
           \<or> reaches_final self (Suc n) (apply_transition v t0))"
    by (simp only: reaches_final.simps(2) [of self "Suc n" v] t0 option.case)
  also have "\<dots> = (next_state t0 \<in> set (final_states (self_spec self))
           \<or> (reaches_final self n (apply_transition v t0)
               \<or> next_state transition \<in> set (final_states (self_spec self))))"
    by (simp only: Suc.IH [OF rest Suc.prems(2)])
  also have "\<dots> = (reaches_final self (Suc n) v
           \<or> next_state transition \<in> set (final_states (self_spec self)))"
    by (simp only: reaches_final.simps(2) [of self n v] t0 option.case disj_assoc)
  finally show ?case .
qed

lemma length_snapshots_after:
  "after_transitions self n v = Some w \<Longrightarrow> length (snapshots_after self n v) = n"
  by (induction n arbitrary: v) (auto split: option.splits)

lemma nth_snapshots_after:
  "after_transitions self n v = Some w \<Longrightarrow> k < n \<Longrightarrow>
   \<exists>u. after_transitions self (Suc k) v = Some u \<and> snapshots_after self n v ! k = snapshot u"
proof (induction n arbitrary: v k)
  case 0
  then show ?case by simp
next
  case (Suc n)
  then obtain transition where t: "current_transition self v = Some transition"
    and rest: "after_transitions self n (apply_transition v transition) = Some w"
    by (auto split: option.splits)
  show ?case
  proof (cases k)
    case 0
    with t show ?thesis by simp
  next
    case (Suc j)
    with Suc.prems have "j < n" by simp
    from Suc.IH [OF rest this] t Suc show ?thesis by simp
  qed
qed

text \<open>
  \<open>reaches_final\<close> in terms of \<open>after_transitions\<close>: a final state is the state after one of
  the first \<open>n\<close> transitions.
\<close>

lemma reaches_final_iff:
  "reaches_final self n v \<longleftrightarrow>
   (\<exists>k u. 0 < k \<and> k \<le> n \<and> after_transitions self k v = Some u
          \<and> rs_state u \<in> set (final_states (self_spec self)))"
proof (induction n arbitrary: v)
  case 0
  then show ?case by simp
next
  case (Suc n)
  show ?case
  proof (cases "current_transition self v")
    case None
    have "\<And>k. 0 < k \<Longrightarrow> after_transitions self k v = None"
      using None by (case_tac k) simp_all
    with None show ?thesis by auto
  next
    case (Some transition)
    let ?a = "apply_transition v transition"
    let ?F = "set (final_states (self_spec self))"
    have step: "\<And>j. after_transitions self (Suc j) v = after_transitions self j ?a"
      using Some by simp
    show ?thesis
    proof
      assume "reaches_final self (Suc n) v"
      with Some have "next_state transition \<in> ?F \<or> reaches_final self n ?a" by simp
      then show "\<exists>k u. 0 < k \<and> k \<le> Suc n \<and> after_transitions self k v = Some u \<and> rs_state u \<in> ?F"
      proof
        assume "next_state transition \<in> ?F"
        then have "0 < Suc 0 \<and> Suc 0 \<le> Suc n \<and> after_transitions self (Suc 0) v = Some ?a
                   \<and> rs_state ?a \<in> ?F"
          using Some by simp
        then show ?thesis by blast
      next
        assume "reaches_final self n ?a"
        with Suc.IH [of ?a] obtain k u where
          "0 < k" "k \<le> n" "after_transitions self k ?a = Some u" "rs_state u \<in> ?F"
          by blast
        then have "0 < Suc k \<and> Suc k \<le> Suc n \<and> after_transitions self (Suc k) v = Some u
                   \<and> rs_state u \<in> ?F"
          using step by simp
        then show ?thesis by blast
      qed
    next
      assume "\<exists>k u. 0 < k \<and> k \<le> Suc n \<and> after_transitions self k v = Some u \<and> rs_state u \<in> ?F"
      then obtain k u where k: "0 < k" "k \<le> Suc n" "after_transitions self k v = Some u"
        "rs_state u \<in> ?F"
        by blast
      from k(1) obtain j where j: "k = Suc j" by (cases k) simp_all
      show "reaches_final self (Suc n) v"
      proof (cases j)
        case 0
        with j k(3) Some have "u = ?a" by simp
        with k(4) have "next_state transition \<in> ?F" by simp
        with Some show ?thesis by simp
      next
        case (Suc i)
        with j k step have "0 < j \<and> j \<le> n \<and> after_transitions self j ?a = Some u
                            \<and> rs_state u \<in> ?F"
          by simp
        with Suc.IH [of ?a] have "reaches_final self n ?a" by blast
        with Some show ?thesis by simp
      qed
    qed
  qed
qed

text \<open>One pass of the \<open>while\<close> loop, by the way it ends.\<close>

lemma run_loop_limit:
  "max_steps \<le> rs_steps v \<Longrightarrow>
   run_loop self max_steps capture_ids v =
     \<lparr>accepted = False, halted = False, reason = reason_step_limit,
      steps = rs_steps v, ids = rs_ids v\<rparr>"
  by (subst run_loop.simps) simp

lemma run_loop_no_transition:
  "rs_steps v < max_steps \<Longrightarrow> current_transition self v = None \<Longrightarrow>
   run_loop self max_steps capture_ids v =
     \<lparr>accepted = rs_state v \<in> set (final_states (self_spec self)), halted = True,
      reason = (if rs_state v \<in> set (final_states (self_spec self))
                then reason_final else reason_no_transition),
      steps = rs_steps v, ids = rs_ids v\<rparr>"
  by (subst run_loop.simps) (simp add: loop_body_cases)

lemma run_loop_final:
  "rs_steps v < max_steps \<Longrightarrow> current_transition self v = Some transition \<Longrightarrow>
   next_state transition \<in> set (final_states (self_spec self)) \<Longrightarrow>
   run_loop self max_steps capture_ids v =
     \<lparr>accepted = True, halted = True, reason = reason_final, steps = rs_steps v + 1,
      ids = rs_ids v @ (if capture_ids then [snapshot (apply_transition v transition)] else [])\<rparr>"
  by (subst run_loop.simps) (simp add: loop_body_cases)

lemma run_loop_continue:
  "rs_steps v < max_steps \<Longrightarrow> current_transition self v = Some transition \<Longrightarrow>
   next_state transition \<notin> set (final_states (self_spec self)) \<Longrightarrow>
   run_loop self max_steps capture_ids v =
     run_loop self max_steps capture_ids
       ((apply_transition v transition)
          \<lparr>rs_ids := rs_ids v @
             (if capture_ids then [snapshot (apply_transition v transition)] else [])\<rparr>)"
  by (subst run_loop.simps) (simp add: loop_body_cases)

text \<open>
  As long as transitions resolve, no final state is entered and the limit is not reached,
  the loop goes on: after \<open>n\<close> such passes it is at the variables \<open>after_transitions\<close>
  gives, with the snapshots of the passes appended.
\<close>

lemma run_loop_prefix:
  assumes "after_transitions self n v = Some w"
    and "rs_steps v + int n \<le> max_steps"
    and "\<not> reaches_final self n v"
  shows "run_loop self max_steps capture_ids v =
         run_loop self max_steps capture_ids
           (w\<lparr>rs_ids := rs_ids v @ (if capture_ids then snapshots_after self n v else [])\<rparr>)"
  using assms
proof (induction n arbitrary: v w)
  case 0
  then show ?case by simp
next
  case (Suc n)
  from Suc.prems(1) obtain transition where t: "current_transition self v = Some transition"
    and rest: "after_transitions self n (apply_transition v transition) = Some w"
    by (auto split: option.splits)
  let ?a = "apply_transition v transition"
  let ?I = "rs_ids v @ (if capture_ids then [snapshot ?a] else [])"
  let ?v' = "?a\<lparr>rs_ids := ?I\<rparr>"
  from Suc.prems(3) t have nf: "next_state transition \<notin> set (final_states (self_spec self))"
    and nr: "\<not> reaches_final self n ?a"
    by simp_all
  from Suc.prems(2) have lt: "rs_steps v < max_steps" by simp
  have one: "run_loop self max_steps capture_ids v = run_loop self max_steps capture_ids ?v'"
    by (rule run_loop_continue [OF lt t nf])
  have a': "after_transitions self n ?v' = Some (w\<lparr>rs_ids := ?I\<rparr>)"
    by (simp add: after_transitions_ids rest)
  have b': "rs_steps ?v' + int n \<le> max_steps"
    using Suc.prems(2) by simp
  have c': "\<not> reaches_final self n ?v'"
    using nr by simp
  have "run_loop self max_steps capture_ids ?v' =
        run_loop self max_steps capture_ids
          ((w\<lparr>rs_ids := ?I\<rparr>)
             \<lparr>rs_ids := rs_ids ?v' @ (if capture_ids then snapshots_after self n ?v' else [])\<rparr>)"
    by (rule Suc.IH [OF a' b' c'])
  also have "(w\<lparr>rs_ids := ?I\<rparr>)
             \<lparr>rs_ids := rs_ids ?v' @ (if capture_ids then snapshots_after self n ?v' else [])\<rparr>
           = w\<lparr>rs_ids := rs_ids v @ (if capture_ids then snapshots_after self (Suc n) v else [])\<rparr>"
    using t by simp
  finally show ?case using one by simp
qed

text \<open>
  From any variables the loop comes, after finitely many transitions without a final
  state, to variables at which it returns: the limit is reached, or no rule resolves, or
  the rule that resolves leads into a final state.
\<close>

lemma loop_ends:
  "\<exists>n w. after_transitions self n v = Some w \<and> \<not> reaches_final self n v
         \<and> (rs_steps v \<le> max_steps \<longrightarrow> rs_steps w \<le> max_steps)
         \<and> (max_steps \<le> rs_steps v \<longrightarrow> n = 0)
         \<and> (max_steps \<le> rs_steps w
            \<or> current_transition self w = None
            \<or> (\<exists>transition. current_transition self w = Some transition
                  \<and> next_state transition \<in> set (final_states (self_spec self))))"
proof (induction "nat (max_steps - rs_steps v)" arbitrary: v rule: less_induct)
  case less
  let ?F = "set (final_states (self_spec self))"
  let ?ends = "\<lambda>w. max_steps \<le> rs_steps w \<or> current_transition self w = None
            \<or> (\<exists>transition. current_transition self w = Some transition
                  \<and> next_state transition \<in> ?F)"
  show ?case
  proof (cases "?ends v")
    case True
    then have "after_transitions self 0 v = Some v \<and> \<not> reaches_final self 0 v
         \<and> (rs_steps v \<le> max_steps \<longrightarrow> rs_steps v \<le> max_steps)
         \<and> (max_steps \<le> rs_steps v \<longrightarrow> (0::nat) = 0) \<and> ?ends v"
      by simp
    then show ?thesis by blast
  next
    case False
    then obtain transition where lt: "rs_steps v < max_steps"
      and t: "current_transition self v = Some transition"
      and nf: "next_state transition \<notin> ?F"
      by (cases "current_transition self v") auto
    let ?a = "apply_transition v transition"
    from lt have "nat (max_steps - rs_steps ?a) < nat (max_steps - rs_steps v)" by simp
    from less [OF this] obtain n w where
      a: "after_transitions self n ?a = Some w" and r: "\<not> reaches_final self n ?a"
      and b: "rs_steps ?a \<le> max_steps \<longrightarrow> rs_steps w \<le> max_steps" and e: "?ends w"
      by blast
    from a t have a': "after_transitions self (Suc n) v = Some w" by simp
    from r t nf have r': "\<not> reaches_final self (Suc n) v" by simp
    from b lt have b': "rs_steps v \<le> max_steps \<longrightarrow> rs_steps w \<le> max_steps" by simp
    from lt have c': "max_steps \<le> rs_steps v \<longrightarrow> Suc n = 0" by simp
    from a' r' b' c' e show ?thesis by blast
  qed
qed

section \<open>The outcomes of run\<close>

lemma start_fields [simp]:
  "rs_steps (start self input_string) = 0"
  "rs_ids (start self input_string) = []"
  "rs_state (start self input_string) = MachineSpecification.initial_state (self_spec self)"
  by (simp_all add: start_def)

lemma run_prefix:
  assumes "after_transitions self n (start self input_string) = Some w"
    and "int n \<le> max_steps"
    and "\<not> reaches_final self n (start self input_string)"
  shows "run self input_string max_steps capture_ids =
         run_loop self max_steps capture_ids
           (w\<lparr>rs_ids :=
                (if capture_ids
                 then snapshot (start self input_string)
                        # snapshots_after self n (start self input_string)
                 else [])\<rparr>)"
proof -
  let ?s = "start self input_string"
  let ?I = "if capture_ids then [snapshot ?s] else []"
  let ?v = "?s\<lparr>rs_ids := ?I\<rparr>"
  have r: "run self input_string max_steps capture_ids = run_loop self max_steps capture_ids ?v"
    by (simp add: run_def capture_snapshot)
  have a: "after_transitions self n ?v = Some (w\<lparr>rs_ids := ?I\<rparr>)"
    by (simp add: after_transitions_ids assms(1))
  have b: "rs_steps ?v + int n \<le> max_steps"
    using assms(2) by simp
  have c: "\<not> reaches_final self n ?v"
    using assms(3) by simp
  have "run_loop self max_steps capture_ids ?v =
        run_loop self max_steps capture_ids
          ((w\<lparr>rs_ids := ?I\<rparr>)
             \<lparr>rs_ids := rs_ids ?v @ (if capture_ids then snapshots_after self n ?v else [])\<rparr>)"
    by (rule run_loop_prefix [OF a b c])
  with r show ?thesis by simp
qed

lemma run_no_transition:
  assumes "after_transitions self n (start self input_string) = Some w"
    and "int n < max_steps"
    and "\<not> reaches_final self n (start self input_string)"
    and "current_transition self w = None"
  shows "run self input_string max_steps capture_ids =
         \<lparr>accepted = rs_state w \<in> set (final_states (self_spec self)), halted = True,
          reason = (if rs_state w \<in> set (final_states (self_spec self))
                    then reason_final else reason_no_transition),
          steps = int n,
          ids = (if capture_ids
                 then snapshot (start self input_string)
                        # snapshots_after self n (start self input_string)
                 else [])\<rparr>"
proof -
  from assms(2) have le: "int n \<le> max_steps" by simp
  from after_transitions_steps [OF assms(1)] have s: "rs_steps w = int n" by simp
  show ?thesis
    unfolding run_prefix [OF assms(1) le assms(3)]
    using assms(2,4) s by (subst run_loop_no_transition) simp_all
qed

lemma run_final:
  assumes "after_transitions self n (start self input_string) = Some w"
    and "int n < max_steps"
    and "\<not> reaches_final self n (start self input_string)"
    and "current_transition self w = Some transition"
    and "next_state transition \<in> set (final_states (self_spec self))"
  shows "run self input_string max_steps capture_ids =
         \<lparr>accepted = True, halted = True, reason = reason_final, steps = int (Suc n),
          ids = (if capture_ids
                 then snapshot (start self input_string)
                        # snapshots_after self (Suc n) (start self input_string)
                 else [])\<rparr>"
proof -
  let ?I = "if capture_ids
            then snapshot (start self input_string)
                   # snapshots_after self n (start self input_string)
            else []"
  from assms(2) have le: "int n \<le> max_steps" by simp
  from after_transitions_steps [OF assms(1)] have s: "rs_steps w = int n" by simp
  have lt: "rs_steps (w\<lparr>rs_ids := ?I\<rparr>) < max_steps"
    using assms(2) s by simp
  have t: "current_transition self (w\<lparr>rs_ids := ?I\<rparr>) = Some transition"
    using assms(4) by simp
  show ?thesis
    unfolding run_prefix [OF assms(1) le assms(3)] run_loop_final [OF lt t assms(5)]
    using s snapshots_after_Suc_end [OF assms(1,4)] by simp
qed

lemma run_limit:
  assumes "after_transitions self n (start self input_string) = Some w"
    and "int n = max_steps \<or> (max_steps < 0 \<and> n = 0)"
    and "\<not> reaches_final self n (start self input_string)"
  shows "run self input_string max_steps capture_ids =
         \<lparr>accepted = False, halted = False, reason = reason_step_limit, steps = int n,
          ids = (if capture_ids
                 then snapshot (start self input_string)
                        # snapshots_after self n (start self input_string)
                 else [])\<rparr>"
proof -
  from after_transitions_steps [OF assms(1)] have s: "rs_steps w = int n" by simp
  show ?thesis
  proof (cases "int n = max_steps")
    case True
    then have le: "int n \<le> max_steps" by simp
    show ?thesis
      unfolding run_prefix [OF assms(1) le assms(3)]
      using True s by (subst run_loop_limit) simp_all
  next
    case False
    with assms(2) have neg: "max_steps < 0" and n: "n = 0" by simp_all
    from n assms(1) have w: "w = start self input_string" by simp
    show ?thesis
      using neg n by (simp add: run_def capture_snapshot run_loop_limit)
  qed
qed

text \<open>
  Every call of \<open>run\<close> returns, in one of three ways, after some number \<open>n\<close> of applied
  transitions: no rule resolves; or the \<open>n\<close>-th transition leads into a final state; or
  the step limit is reached.
\<close>

lemma run_outcome:
  "\<exists>n w. after_transitions self n (start self input_string) = Some w
     \<and> steps (run self input_string max_steps capture_ids) = int n
     \<and> ids (run self input_string max_steps capture_ids)
         = (if capture_ids
            then snapshot (start self input_string)
                   # snapshots_after self n (start self input_string)
            else [])
     \<and> (0 \<le> max_steps \<longrightarrow> int n \<le> max_steps)
     \<and> \<not> reaches_final self (n - 1) (start self input_string)
     \<and> (halted (run self input_string max_steps capture_ids)
          \<and> int n < max_steps
          \<and> \<not> reaches_final self n (start self input_string)
          \<and> current_transition self w = None
          \<and> accepted (run self input_string max_steps capture_ids)
              = (rs_state w \<in> set (final_states (self_spec self)))
          \<and> reason (run self input_string max_steps capture_ids)
              = (if rs_state w \<in> set (final_states (self_spec self))
                 then reason_final else reason_no_transition)
        \<or> halted (run self input_string max_steps capture_ids)
          \<and> 0 < n
          \<and> rs_state w \<in> set (final_states (self_spec self))
          \<and> accepted (run self input_string max_steps capture_ids)
          \<and> reason (run self input_string max_steps capture_ids) = reason_final
        \<or> \<not> halted (run self input_string max_steps capture_ids)
          \<and> (int n = max_steps \<or> max_steps < 0 \<and> n = 0)
          \<and> \<not> reaches_final self n (start self input_string)
          \<and> \<not> accepted (run self input_string max_steps capture_ids)
          \<and> reason (run self input_string max_steps capture_ids) = reason_step_limit)"
proof -
  let ?s = "start self input_string"
  let ?F = "set (final_states (self_spec self))"
  let ?r = "run self input_string max_steps capture_ids"
  from loop_ends [of self ?s max_steps] obtain n w where
    a: "after_transitions self n ?s = Some w" and nr: "\<not> reaches_final self n ?s"
    and b: "rs_steps ?s \<le> max_steps \<longrightarrow> rs_steps w \<le> max_steps"
    and z: "max_steps \<le> rs_steps ?s \<longrightarrow> n = 0"
    and e: "max_steps \<le> rs_steps w \<or> current_transition self w = None
            \<or> (\<exists>transition. current_transition self w = Some transition
                  \<and> next_state transition \<in> ?F)"
    by blast
  from after_transitions_steps [OF a] have s: "rs_steps w = int n" by simp
  from b s have le: "0 \<le> max_steps \<longrightarrow> int n \<le> max_steps" by simp
  have nr1: "\<not> reaches_final self (n - 1) ?s"
  proof
    assume "reaches_final self (n - 1) ?s"
    then have "reaches_final self n ?s"
      unfolding reaches_final_iff by (meson diff_le_self le_trans)
    with nr show False by simp
  qed
  show ?thesis
  proof (cases "max_steps \<le> int n")
    case True
    with le z have c: "int n = max_steps \<or> (max_steps < 0 \<and> n = 0)" by force
    have "?r = \<lparr>accepted = False, halted = False, reason = reason_step_limit, steps = int n,
               ids = (if capture_ids then snapshot ?s # snapshots_after self n ?s else [])\<rparr>"
      by (rule run_limit [OF a c nr])
    with a le nr nr1 c show ?thesis by force
  next
    case False
    then have lt: "int n < max_steps" by simp
    show ?thesis
    proof (cases "current_transition self w")
      case None
      have "?r = \<lparr>accepted = rs_state w \<in> ?F, halted = True,
                 reason = (if rs_state w \<in> ?F then reason_final else reason_no_transition),
                 steps = int n,
                 ids = (if capture_ids then snapshot ?s # snapshots_after self n ?s else [])\<rparr>"
        by (rule run_no_transition [OF a lt nr None])
      with a le nr nr1 lt None show ?thesis by force
    next
      case (Some transition)
      with e s lt have f: "next_state transition \<in> ?F" by simp
      let ?w' = "apply_transition w transition"
      have r: "?r = \<lparr>accepted = True, halted = True, reason = reason_final, steps = int (Suc n),
                 ids = (if capture_ids then snapshot ?s # snapshots_after self (Suc n) ?s
                        else [])\<rparr>"
        by (rule run_final [OF a lt nr Some f])
      have a': "after_transitions self (Suc n) ?s = Some ?w'"
        using after_transitions_Suc_end [OF a] Some by simp
      have le': "0 \<le> max_steps \<longrightarrow> int (Suc n) \<le> max_steps"
        using lt by simp
      have nr': "\<not> reaches_final self (Suc n - 1) ?s"
        using nr by simp
      have f': "rs_state ?w' \<in> ?F"
        using f by simp
      have "after_transitions self (Suc n) ?s = Some ?w'
            \<and> steps ?r = int (Suc n)
            \<and> ids ?r = (if capture_ids then snapshot ?s # snapshots_after self (Suc n) ?s
                         else [])
            \<and> (0 \<le> max_steps \<longrightarrow> int (Suc n) \<le> max_steps)
            \<and> \<not> reaches_final self (Suc n - 1) ?s
            \<and> halted ?r \<and> 0 < Suc n \<and> rs_state ?w' \<in> ?F \<and> accepted ?r
            \<and> reason ?r = reason_final"
        using a' le' nr' f' r by simp
      then show ?thesis by blast
    qed
  qed
qed

lemma reason_strings_differ:
  "reason_step_limit \<noteq> reason_no_transition" "reason_step_limit \<noteq> reason_final"
  "reason_final \<noteq> reason_no_transition"
  by (simp_all add: reason_step_limit_def reason_no_transition_def reason_final_def)

section \<open>The example machines at work\<close>

lemmas machine_defs =
  unary_machine_def looping_machine_def right_machine_def memory_machine_def
  TuringMachine_init_def example_spec_def transition_map_def key_of_def transition_key_def
  rule_def

lemmas step_defs =
  start_def current_transition_def next_transition_def read_def Tape_init_def
  Tape_init_store_def apply_transition_def write_tape_def Let_def

lemma unary_2_stuck: "current_transition unary_machine (start unary_machine ''2'') = None"
  by (simp add: machine_defs step_defs)

lemma unary_2_result:
  "run unary_machine ''2'' 10 True =
     \<lparr>accepted = False, halted = True, reason = reason_no_transition, steps = 0,
      ids = [snapshot (start unary_machine ''2'')]\<rparr>"
proof -
  have a: "after_transitions unary_machine 0 (start unary_machine ''2'')
           = Some (start unary_machine ''2'')"
    by simp
  have b: "int 0 < 10" by simp
  have c: "\<not> reaches_final unary_machine 0 (start unary_machine ''2'')" by simp
  have f: "rs_state (start unary_machine ''2'')
           \<notin> set (final_states (self_spec unary_machine))"
    by (simp add: machine_defs)
  from run_no_transition [OF a b c unary_2_stuck, of True] f show ?thesis by simp
qed

lemma unary_1_rule:
  "current_transition unary_machine (start unary_machine ''1'')
   = Some (rule ''q0'' ''1'' None ''qf'' ''1'' ''S'' None)"
  by (simp add: machine_defs step_defs)

lemma unary_1_result:
  "run unary_machine ''1'' 10 True =
     \<lparr>accepted = True, halted = True, reason = reason_final, steps = 1,
      ids = [snapshot (start unary_machine ''1''),
             snapshot (apply_transition (start unary_machine ''1'')
                         (rule ''q0'' ''1'' None ''qf'' ''1'' ''S'' None))]\<rparr>"
proof -
  have a: "after_transitions unary_machine 0 (start unary_machine ''1'')
           = Some (start unary_machine ''1'')"
    by simp
  have b: "int 0 < 10" by simp
  have c: "\<not> reaches_final unary_machine 0 (start unary_machine ''1'')" by simp
  have f: "next_state (rule ''q0'' ''1'' None ''qf'' ''1'' ''S'' None)
           \<in> set (final_states (self_spec unary_machine))"
    by (simp add: machine_defs)
  from run_final [OF a b c unary_1_rule f, of True] unary_1_rule show ?thesis by simp
qed

lemma right_a_first:
  "after_transitions right_machine 1 (start right_machine ''a'')
   = Some (apply_transition (start right_machine ''a'')
             (rule ''q0'' ''a'' None ''q0'' ''a'' ''R'' None))"
  by (simp add: machine_defs step_defs)

lemma right_a_stuck:
  "current_transition right_machine
     (apply_transition (start right_machine ''a'')
        (rule ''q0'' ''a'' None ''q0'' ''a'' ''R'' None)) = None"
  by (simp add: machine_defs step_defs)

lemma right_a_no_final: "\<not> reaches_final right_machine 1 (start right_machine ''a'')"
  by (simp add: machine_defs step_defs)

lemma looping_a_goes_on:
  "after_transitions looping_machine 3 (start looping_machine ''a'') \<noteq> None"
  by (simp add: machine_defs step_defs numeral_3_eq_3)

lemma looping_a_no_final: "\<not> reaches_final looping_machine 3 (start looping_machine ''a'')"
  by (simp add: machine_defs step_defs numeral_3_eq_3)

section \<open>The claims about run\<close>

text \<open>
  C2 as stated fails on the text of the reason: the unary machine has no rule for the
  input \<open>2\<close>, the run halts at once without accepting, and its reason is the string
  \<open>No existe transicion definida\<close> (with o acute) of the code, not \<open>no transition defined\<close>.
\<close>

theorem run_reason_text_counterexample:
  "current_transition unary_machine (start unary_machine ''2'') = None
   \<and> \<not> (halted (run unary_machine ''2'' 10 True)
        \<and> accepted (run unary_machine ''2'' 10 True)
            = (rs_state (start unary_machine ''2'')
                 \<in> set (final_states (self_spec unary_machine)))
        \<and> reason (run unary_machine ''2'' 10 True)
            = (if accepted (run unary_machine ''2'' 10 True)
               then ''final state reached'' else ''no transition defined''))"
  by (simp add: unary_2_stuck unary_2_result reason_no_transition_def)

text \<open>
  C2, amended. When, after \<open>n\<close> transitions below the step limit and without a final state
  on the way, no rule resolves for the current state, symbol and memory, \<open>run\<close> returns a
  result with \<open>halted\<close> true, with \<open>accepted\<close> true exactly when the current state is a
  final state, with \<open>n\<close> steps, and with the reason \<open>Estado final alcanzado\<close> when accepted
  and \<open>No existe transicion definida\<close> (with o acute) otherwise.
\<close>

theorem run_halts_without_transition:
  assumes "after_transitions self n (start self input_string) = Some w"
    and "int n < max_steps"
    and "\<not> reaches_final self n (start self input_string)"
    and "current_transition self w = None"
  shows "halted (run self input_string max_steps capture_ids)
         \<and> accepted (run self input_string max_steps capture_ids)
             = (rs_state w \<in> set (final_states (self_spec self)))
         \<and> reason (run self input_string max_steps capture_ids)
             = (if accepted (run self input_string max_steps capture_ids)
                then ''Estado final alcanzado''
                else ''No existe transici'' @ [CHR 0xF3] @ ''n definida'')
         \<and> steps (run self input_string max_steps capture_ids) = int n"
  by (simp add: run_no_transition [OF assms] reason_final_def reason_no_transition_def)

theorem run_halts_without_transition_witness:
  "after_transitions right_machine 1 (start right_machine ''a'')
     = Some (apply_transition (start right_machine ''a'')
               (rule ''q0'' ''a'' None ''q0'' ''a'' ''R'' None))
   \<and> int 1 < 10
   \<and> \<not> reaches_final right_machine 1 (start right_machine ''a'')
   \<and> current_transition right_machine
        (apply_transition (start right_machine ''a'')
           (rule ''q0'' ''a'' None ''q0'' ''a'' ''R'' None)) = None
   \<and> halted (run right_machine ''a'' 10 True)
   \<and> \<not> accepted (run right_machine ''a'' 10 True)
   \<and> reason (run right_machine ''a'' 10 True)
       = ''No existe transici'' @ [CHR 0xF3] @ ''n definida''
   \<and> steps (run right_machine ''a'' 10 True) = 1"
proof -
  have b: "int 1 < 10" by simp
  have f: "rs_state (apply_transition (start right_machine ''a'')
             (rule ''q0'' ''a'' None ''q0'' ''a'' ''R'' None))
           \<notin> set (final_states (self_spec right_machine))"
    by (simp add: machine_defs)
  from run_halts_without_transition [OF right_a_first b right_a_no_final right_a_stuck, of True]
    right_a_first b right_a_no_final right_a_stuck f
  show ?thesis by simp
qed

text \<open>
  C3. For a positive \<open>max_steps\<close>: when \<open>max_steps\<close> transitions can be applied from the
  start and none of them leads into a final state, \<open>run\<close> returns with \<open>accepted\<close> false,
  \<open>halted\<close> false and \<open>steps\<close> equal to \<open>max_steps\<close>, with a reason that is not the one of
  the halt without transition. And for every call, \<open>steps\<close> is the number \<open>n\<close> of
  transitions that were applied: \<open>n\<close> transitions can be applied from the start, none of
  the first \<open>n - 1\<close> leads into a final state, \<open>n\<close> does not exceed a limit that is not
  negative, and after them the loop is over (the limit is reached, or no rule resolves, or
  the state is final after at least one transition).
\<close>

theorem run_step_limit_and_step_count:
  "(0 < max_steps
      \<and> after_transitions self (nat max_steps) (start self input_string) \<noteq> None
      \<and> \<not> reaches_final self (nat max_steps) (start self input_string)
    \<longrightarrow> accepted (run self input_string max_steps capture_ids) = False
        \<and> halted (run self input_string max_steps capture_ids) = False
        \<and> steps (run self input_string max_steps capture_ids) = max_steps
        \<and> reason (run self input_string max_steps capture_ids) = reason_step_limit
        \<and> reason (run self input_string max_steps capture_ids) \<noteq> reason_no_transition)
   \<and> (\<exists>n w. steps (run self input_string max_steps capture_ids) = int n
         \<and> after_transitions self n (start self input_string) = Some w
         \<and> \<not> reaches_final self (n - 1) (start self input_string)
         \<and> (0 \<le> max_steps \<longrightarrow> int n \<le> max_steps)
         \<and> (max_steps \<le> int n
            \<or> current_transition self w = None
            \<or> 0 < n \<and> rs_state w \<in> set (final_states (self_spec self))))"
proof
  let ?s = "start self input_string"
  let ?r = "run self input_string max_steps capture_ids"
  show "0 < max_steps \<and> after_transitions self (nat max_steps) ?s \<noteq> None
        \<and> \<not> reaches_final self (nat max_steps) ?s
        \<longrightarrow> accepted ?r = False \<and> halted ?r = False \<and> steps ?r = max_steps
            \<and> reason ?r = reason_step_limit \<and> reason ?r \<noteq> reason_no_transition"
  proof
    assume h: "0 < max_steps \<and> after_transitions self (nat max_steps) ?s \<noteq> None
               \<and> \<not> reaches_final self (nat max_steps) ?s"
    then obtain w where a: "after_transitions self (nat max_steps) ?s = Some w" by blast
    from h have c: "int (nat max_steps) = max_steps \<or> (max_steps < 0 \<and> nat max_steps = 0)"
      by simp
    from h have nr: "\<not> reaches_final self (nat max_steps) ?s" by simp
    from run_limit [OF a c nr, of capture_ids] h reason_strings_differ(1)
    show "accepted ?r = False \<and> halted ?r = False \<and> steps ?r = max_steps
          \<and> reason ?r = reason_step_limit \<and> reason ?r \<noteq> reason_no_transition"
      by simp
  qed
next
  let ?s = "start self input_string"
  let ?r = "run self input_string max_steps capture_ids"
  from run_outcome [of self input_string max_steps capture_ids]
  obtain n w where a: "after_transitions self n ?s = Some w" and s: "steps ?r = int n"
    and le: "0 \<le> max_steps \<longrightarrow> int n \<le> max_steps"
    and nr: "\<not> reaches_final self (n - 1) ?s"
    and e: "int n < max_steps \<and> current_transition self w = None
            \<or> 0 < n \<and> rs_state w \<in> set (final_states (self_spec self))
            \<or> (int n = max_steps \<or> max_steps < 0 \<and> n = 0)"
    by blast
  from e have "max_steps \<le> int n \<or> current_transition self w = None
            \<or> 0 < n \<and> rs_state w \<in> set (final_states (self_spec self))"
    by auto
  with a s le nr
  show "\<exists>n w. steps ?r = int n \<and> after_transitions self n ?s = Some w
         \<and> \<not> reaches_final self (n - 1) ?s
         \<and> (0 \<le> max_steps \<longrightarrow> int n \<le> max_steps)
         \<and> (max_steps \<le> int n \<or> current_transition self w = None
            \<or> 0 < n \<and> rs_state w \<in> set (final_states (self_spec self)))"
    by blast
qed

theorem run_step_limit_and_step_count_witness:
  "(0::int) < 3
   \<and> after_transitions looping_machine (nat 3) (start looping_machine ''a'') \<noteq> None
   \<and> \<not> reaches_final looping_machine (nat 3) (start looping_machine ''a'')
   \<and> accepted (run looping_machine ''a'' 3 True) = False
   \<and> halted (run looping_machine ''a'' 3 True) = False
   \<and> steps (run looping_machine ''a'' 3 True) = 3
   \<and> reason (run looping_machine ''a'' 3 True) = reason_step_limit
   \<and> reason (run looping_machine ''a'' 3 True) \<noteq> reason_no_transition"
proof -
  have a: "(0::int) < 3" by simp
  have n: "nat 3 = 3" by simp
  from run_step_limit_and_step_count [of 3 looping_machine "''a''" True]
    a looping_a_goes_on looping_a_no_final
  show ?thesis unfolding n by blast
qed

lemma looping_a_result:
  "\<not> halted (run looping_machine ''a'' 3 True) \<and> steps (run looping_machine ''a'' 3 True) = 3"
proof -
  from looping_a_goes_on obtain w where
    a: "after_transitions looping_machine 3 (start looping_machine ''a'') = Some w"
    by blast
  have c: "int 3 = 3 \<or> ((3::int) < 0 \<and> (3::nat) = 0)" by simp
  from run_limit [OF a c looping_a_no_final, of True] show ?thesis by simp
qed

text \<open>
  C4. With trace capture enabled the sequence of descriptions has \<open>steps + 1\<close> elements,
  in particular when the run halts (by acceptance or for want of a transition), and
  \<open>max_steps + 1\<close> elements when the run stops at a step limit that is not negative. Its
  element number \<open>k\<close>, for every \<open>k\<close> from 0 to \<open>steps\<close>, is the snapshot of the variables
  after \<open>k\<close> transitions from the start and carries the step number \<open>k\<close>: one snapshot
  before any transition and one after each transition.
\<close>

theorem run_trace:
  "int (length (ids (run self input_string max_steps True)))
     = steps (run self input_string max_steps True) + 1
   \<and> (halted (run self input_string max_steps True) \<longrightarrow>
        int (length (ids (run self input_string max_steps True)))
          = steps (run self input_string max_steps True) + 1)
   \<and> (\<not> halted (run self input_string max_steps True) \<and> 0 \<le> max_steps \<longrightarrow>
        int (length (ids (run self input_string max_steps True))) = max_steps + 1)
   \<and> (\<forall>k. int k \<le> steps (run self input_string max_steps True) \<longrightarrow>
        (\<exists>u. after_transitions self k (start self input_string) = Some u
             \<and> ids (run self input_string max_steps True) ! k = snapshot u
             \<and> step (ids (run self input_string max_steps True) ! k) = int k))"
proof -
  let ?s = "start self input_string"
  let ?r = "run self input_string max_steps True"
  from run_outcome [of self input_string max_steps True]
  obtain n w where a: "after_transitions self n ?s = Some w" and s: "steps ?r = int n"
    and i: "ids ?r = snapshot ?s # snapshots_after self n ?s"
    and e: "halted ?r \<or> (int n = max_steps \<or> max_steps < 0 \<and> n = 0)"
    by auto
  from i length_snapshots_after [OF a] have len: "length (ids ?r) = Suc n" by simp
  with s have l1: "int (length (ids ?r)) = steps ?r + 1" by simp
  from e len have l2: "\<not> halted ?r \<and> 0 \<le> max_steps \<longrightarrow> int (length (ids ?r)) = max_steps + 1"
    by auto
  have l3: "\<exists>u. after_transitions self k ?s = Some u \<and> ids ?r ! k = snapshot u
                \<and> step (ids ?r ! k) = int k"
    if k: "int k \<le> steps ?r" for k
  proof (cases k)
    case 0
    then have "after_transitions self k ?s = Some ?s \<and> ids ?r ! k = snapshot ?s
               \<and> step (ids ?r ! k) = int k"
      using i by (simp add: snapshot_def)
    then show ?thesis by blast
  next
    case (Suc j)
    with k s have "j < n" by simp
    from nth_snapshots_after [OF a this] obtain u where
      u: "after_transitions self (Suc j) ?s = Some u"
      and v: "snapshots_after self n ?s ! j = snapshot u"
      by blast
    from after_transitions_steps [OF u] have "rs_steps u = int (Suc j)" by simp
    then have "step (snapshot u) = int (Suc j)" by (simp add: snapshot_def)
    with u v i Suc have "after_transitions self k ?s = Some u \<and> ids ?r ! k = snapshot u
               \<and> step (ids ?r ! k) = int k"
      by simp
    then show ?thesis by blast
  qed
  from l1 l2 l3 show ?thesis by blast
qed

theorem run_trace_witness:
  "halted (run unary_machine ''1'' 10 True)
   \<and> steps (run unary_machine ''1'' 10 True) = 1
   \<and> int (length (ids (run unary_machine ''1'' 10 True)))
       = steps (run unary_machine ''1'' 10 True) + 1
   \<and> \<not> halted (run looping_machine ''a'' 3 True) \<and> (0::int) \<le> 3
   \<and> int (length (ids (run looping_machine ''a'' 3 True))) = 3 + 1
   \<and> int 1 \<le> steps (run unary_machine ''1'' 10 True)
   \<and> (\<exists>u. after_transitions unary_machine 1 (start unary_machine ''1'') = Some u
          \<and> ids (run unary_machine ''1'' 10 True) ! 1 = snapshot u
          \<and> step (ids (run unary_machine ''1'' 10 True) ! 1) = int 1)"
proof -
  have h: "halted (run unary_machine ''1'' 10 True)"
    and s: "steps (run unary_machine ''1'' 10 True) = 1"
    by (simp_all add: unary_1_result)
  from s have k: "int 1 \<le> steps (run unary_machine ''1'' 10 True)" by simp
  from run_trace [of unary_machine "''1''" 10] h
  have a: "int (length (ids (run unary_machine ''1'' 10 True)))
           = steps (run unary_machine ''1'' 10 True) + 1"
    by blast
  from run_trace [of unary_machine "''1''" 10] k
  have b: "\<exists>u. after_transitions unary_machine 1 (start unary_machine ''1'') = Some u
          \<and> ids (run unary_machine ''1'' 10 True) ! 1 = snapshot u
          \<and> step (ids (run unary_machine ''1'' 10 True) ! 1) = int 1"
    by blast
  have z: "(0::int) \<le> 3" by simp
  from looping_a_result have nh: "\<not> halted (run looping_machine ''a'' 3 True)" by simp
  from run_trace [of looping_machine "''a''" 3] nh z
  have c: "int (length (ids (run looping_machine ''a'' 3 True))) = 3 + 1"
    by blast
  from h s a nh z c k b show ?thesis by blast
qed

section \<open>Successive calls of run\<close>

declare run_loop_call.simps [simp del]

lemma next_transition_call_machine:
  "snd (next_transition_call self st symbol mem) = self"
  by (simp add: next_transition_call_def split: option.splits)

lemma next_transition_call_result:
  "fst (next_transition_call self st symbol mem) = next_transition self st symbol mem"
  by (simp add: next_transition_call_def next_transition_def split: option.splits)

lemma loop_body_call_machine: "snd (loop_body_call self capture_ids v) = self"
proof -
  obtain found self' where
    n: "next_transition_call self (rs_state v)
          (fst (read (rs_tape v) (rs_head_position v))) (rs_memory v) = (found, self')"
    by (cases "next_transition_call self (rs_state v)
          (fst (read (rs_tape v) (rs_head_position v))) (rs_memory v)")
  with next_transition_call_machine [of self "rs_state v"
      "fst (read (rs_tape v) (rs_head_position v))" "rs_memory v"]
  have "self' = self" by simp
  with n show ?thesis
    by (cases found) (simp_all add: loop_body_call_def read_def Let_def)
qed

lemma loop_body_call_result: "fst (loop_body_call self capture_ids v) = loop_body self capture_ids v"
proof -
  obtain found self' where
    n: "next_transition_call self (rs_state v)
          (fst (read (rs_tape v) (rs_head_position v))) (rs_memory v) = (found, self')"
    by (cases "next_transition_call self (rs_state v)
          (fst (read (rs_tape v) (rs_head_position v))) (rs_memory v)")
  with next_transition_call_machine [of self "rs_state v"
      "fst (read (rs_tape v) (rs_head_position v))" "rs_memory v"]
    next_transition_call_result [of self "rs_state v"
      "fst (read (rs_tape v) (rs_head_position v))" "rs_memory v"]
  have s: "self' = self"
    and f: "next_transition self (rs_state v)
              (fst (read (rs_tape v) (rs_head_position v))) (rs_memory v) = found"
    by simp_all
  from n s f show ?thesis
    by (cases found) (simp_all add: loop_body_call_def loop_body_def read_def Let_def)
qed

text \<open>
  The loop hands the machine from pass to pass; by induction over its passes, the machine
  it returns is the one it was started with, and the result is the one of \<open>run_loop\<close>.
\<close>

lemma run_loop_call_machine: "snd (run_loop_call self max_steps capture_ids v) = self"
proof (induction self max_steps capture_ids v rule: run_loop_call.induct)
  case (1 self max_steps capture_ids v)
  show ?case
  proof (cases "rs_steps v < max_steps")
    case False
    then show ?thesis by (subst run_loop_call.simps) simp
  next
    case True
    obtain outcome self' where b: "loop_body_call self capture_ids v = (outcome, self')"
      by (cases "loop_body_call self capture_ids v")
    with loop_body_call_machine [of self capture_ids v] have s: "self' = self" by simp
    show ?thesis
    proof (cases outcome)
      case (Inl result)
      with True b s show ?thesis by (subst run_loop_call.simps) simp
    next
      case (Inr v')
      with True b have "snd (run_loop_call self' max_steps capture_ids v') = self'"
        by (intro "1.IH") simp_all
      with True b s Inr show ?thesis by (subst run_loop_call.simps) simp
    qed
  qed
qed

lemma run_loop_call_result:
  "fst (run_loop_call self max_steps capture_ids v) = run_loop self max_steps capture_ids v"
proof (induction self max_steps capture_ids v rule: run_loop_call.induct)
  case (1 self max_steps capture_ids v)
  show ?case
  proof (cases "rs_steps v < max_steps")
    case False
    then show ?thesis
      by (subst run_loop_call.simps, subst run_loop.simps) simp
  next
    case True
    obtain outcome self' where b: "loop_body_call self capture_ids v = (outcome, self')"
      by (cases "loop_body_call self capture_ids v")
    with loop_body_call_machine [of self capture_ids v]
      loop_body_call_result [of self capture_ids v]
    have s: "self' = self" and o: "loop_body self capture_ids v = outcome" by simp_all
    show ?thesis
    proof (cases outcome)
      case (Inl result)
      with True b s o show ?thesis
        by (subst run_loop_call.simps, subst run_loop.simps) simp
    next
      case (Inr v')
      with True b have "fst (run_loop_call self' max_steps capture_ids v')
                        = run_loop self' max_steps capture_ids v'"
        by (intro "1.IH") simp_all
      with True b s o Inr show ?thesis
        by (subst run_loop_call.simps, subst run_loop.simps) simp
    qed
  qed
qed

lemma run_call_machine: "snd (run_call self input_string max_steps capture_ids) = self"
  by (simp add: run_call_def run_loop_call_machine)

lemma run_call_result:
  "fst (run_call self input_string max_steps capture_ids)
   = run self input_string max_steps capture_ids"
  by (simp add: run_call_def run_def run_loop_call_result)

lemma after_calls_machine: "after_calls self calls = self"
  by (induction self calls rule: after_calls.induct) (simp_all add: run_call_machine)

text \<open>
  C5. Two calls of \<open>run\<close> on a machine, the second on the machine as the first left it,
  with the same input string, step limit and trace flag, return results with the same
  \<open>accepted\<close>, \<open>halted\<close>, \<open>reason\<close> and \<open>steps\<close> and the same descriptions, element for element;
  both leave the machine as it was. The same holds when any other calls of \<open>run\<close> are
  made on the machine before the second one. Every call returns (the loop terminates),
  and its result is the one the function \<open>run\<close> gives.
\<close>

theorem run_call_deterministic:
  assumes "run_call self input_string max_steps capture_ids = (first_result, self1)"
    and "run_call self1 input_string max_steps capture_ids = (second_result, self2)"
    and "run_call (after_calls self1 calls) input_string max_steps capture_ids
         = (later_result, self3)"
  shows "accepted first_result = accepted second_result
         \<and> halted first_result = halted second_result
         \<and> reason first_result = reason second_result
         \<and> steps first_result = steps second_result
         \<and> length (ids first_result) = length (ids second_result)
         \<and> (\<forall>k < length (ids first_result). ids first_result ! k = ids second_result ! k)
         \<and> second_result = first_result \<and> later_result = first_result
         \<and> self1 = self \<and> self2 = self \<and> self3 = self
         \<and> first_result = run self input_string max_steps capture_ids"
proof -
  from assms(1) run_call_machine [of self input_string max_steps capture_ids]
  have s1: "self1 = self" by simp
  from assms(1) run_call_result [of self input_string max_steps capture_ids]
  have r1: "first_result = run self input_string max_steps capture_ids" by simp
  from assms(2) s1 run_call_machine [of self input_string max_steps capture_ids]
  have s2: "self2 = self" by simp
  from assms(2) s1 run_call_result [of self input_string max_steps capture_ids]
  have r2: "second_result = run self input_string max_steps capture_ids" by simp
  have a: "after_calls self1 calls = self"
    using s1 by (simp add: after_calls_machine)
  from assms(3) a run_call_machine [of self input_string max_steps capture_ids]
  have s3: "self3 = self" by simp
  from assms(3) a run_call_result [of self input_string max_steps capture_ids]
  have r3: "later_result = run self input_string max_steps capture_ids" by simp
  from s1 s2 s3 r1 r2 r3 show ?thesis by simp
qed

theorem run_call_deterministic_witness:
  "run_call unary_machine ''1'' 10 True = (run unary_machine ''1'' 10 True, unary_machine)
   \<and> run_call (after_calls unary_machine [(''2'', 10, True), (''1'', 3, False)]) ''1'' 10 True
       = (run unary_machine ''1'' 10 True, unary_machine)
   \<and> accepted (run unary_machine ''1'' 10 True)
   \<and> halted (run unary_machine ''1'' 10 True)
   \<and> steps (run unary_machine ''1'' 10 True) = 1
   \<and> length (ids (run unary_machine ''1'' 10 True)) = 2"
proof -
  have a: "run_call unary_machine ''1'' 10 True
           = (run unary_machine ''1'' 10 True, unary_machine)"
    using run_call_machine [of unary_machine "''1''" 10 True]
      run_call_result [of unary_machine "''1''" 10 True]
    by (cases "run_call unary_machine ''1'' 10 True") simp
  have b: "run_call (after_calls unary_machine [(''2'', 10, True), (''1'', 3, False)])
             ''1'' 10 True
           = (run unary_machine ''1'' 10 True, unary_machine)"
    using a by (simp add: after_calls_machine)
  have c: "accepted (run unary_machine ''1'' 10 True)
           \<and> halted (run unary_machine ''1'' 10 True)
           \<and> steps (run unary_machine ''1'' 10 True) = 1
           \<and> length (ids (run unary_machine ''1'' 10 True)) = 2"
    by (simp add: unary_1_result)
  from run_call_deterministic [OF a a b] a b c show ?thesis by blast
qed

end
